theory Spec2Isabelle
  imports Complex_Main "HOL-Library.Sublist"
begin

section \<open>DuckTrack recorder: data model\<close>

text \<open>
  The embedding follows \<^verbatim>\<open>src/ducktrack/recorder.py\<close> and \<^verbatim>\<open>src/ducktrack/obs_client.py\<close>.
  Clock readings (\<^verbatim>\<open>time.time()\<close>, \<^verbatim>\<open>time.perf_counter()\<close>) are inputs, in seconds. A Python
  float is a double; it is modelled as the rational number it denotes. Comparing two doubles
  is exact, subtracting them rounds: the subtraction of doubles is the parameter \<open>fsub\<close> of
  every function that computes with clock readings. It agrees with \<open>(-)\<close> wherever the
  exact difference is a double again, as for the multiples of 1/2 used in the concrete
  inputs below. Calls into collaborators
  (the OBS client, the metadata manager, pynput, the Qt signal) are recorded in the field
  \<open>calls\<close> in the order they are issued; whether such a call raises is an input.
  Logger calls have no effect on the state and are left out.
\<close>

type_synonym pyfloat = rat

datatype jval = JInt int | JFloat pyfloat | JStr string | JBool bool | JNull

record event =
  time_stamp :: pyfloat
  action :: string
  extra :: "(string \<times> jval) list"

datatype listener_attr = NoAttr | AttrNone | Listener (running: bool)

record monitor =
  mon_running :: bool
  permission_check_count :: nat
  max_permission_checks :: nat
  mon_started :: bool

datatype call =
    Collect | ObsStart | ObsPause | ObsResume | ObsStop
  | Sleep | MonitorStart | MonitorStop | MouseStart | KeyboardStart | MouseStop | KeyboardStop
  | EndCollect | AddTimings | FileFlush | FileClose | SaveMetadata | EmitStopped
  | Osascript

datatype exn = OBSError | AttributeError | OtherError

record recorder =
  darwin :: bool
  use_fallback :: bool
  thread_handle_error_detected :: bool
  is_recording :: bool
  is_paused :: bool
  event_queue :: "event list"
  events_file :: "event list"
  file_closed :: bool
  mouse_listener :: listener_attr
  keyboard_listener :: listener_attr
  macos_monitor :: "monitor option"
  calls :: "call list"

datatype outcome = Returned recorder | Raised exn recorder

fun state_of :: "outcome \<Rightarrow> recorder" where
  "state_of (Returned s) = s"
| "state_of (Raised e s) = s"

fun returned :: "outcome \<Rightarrow> bool" where
  "returned (Returned s) = True"
| "returned (Raised e s) = False"

definition mk_event :: "pyfloat \<Rightarrow> string \<Rightarrow> (string \<times> jval) list \<Rightarrow> event" where
  "mk_event ts a xs = \<lparr>time_stamp = ts, action = a, extra = xs\<rparr>"

text \<open>\<^verbatim>\<open>Queue()\<close> is unbounded, so \<^verbatim>\<open>put(event, block=False)\<close> appends and never raises.\<close>

definition put :: "event \<Rightarrow> recorder \<Rightarrow> recorder" where
  "put e s = s\<lparr>event_queue := event_queue s @ [e]\<rparr>"

definition do_call :: "call \<Rightarrow> recorder \<Rightarrow> recorder" where
  "do_call c s = s\<lparr>calls := calls s @ [c]\<rparr>"

section \<open>Input handlers\<close>

definition on_move :: "pyfloat \<Rightarrow> int \<Rightarrow> int \<Rightarrow> recorder \<Rightarrow> recorder" where
  "on_move ts x y s =
     (if \<not> is_paused s \<and> is_recording s
      then put (mk_event ts ''move'' [(''x'', JInt x), (''y'', JInt y)]) s
      else s)"

definition on_click :: "pyfloat \<Rightarrow> int \<Rightarrow> int \<Rightarrow> string \<Rightarrow> bool \<Rightarrow> recorder \<Rightarrow> recorder" where
  "on_click ts x y button pressed s =
     (if \<not> is_paused s \<and> is_recording s
      then put (mk_event ts ''click''
             [(''x'', JInt x), (''y'', JInt y), (''button'', JStr button), (''pressed'', JBool pressed)]) s
      else s)"

definition on_scroll :: "pyfloat \<Rightarrow> int \<Rightarrow> int \<Rightarrow> int \<Rightarrow> int \<Rightarrow> recorder \<Rightarrow> recorder" where
  "on_scroll ts x y dx dy s =
     (if \<not> is_paused s \<and> is_recording s
      then put (mk_event ts ''scroll''
             [(''x'', JInt x), (''y'', JInt y), (''dx'', JInt dx), (''dy'', JInt dy)]) s
      else s)"

text \<open>
  A pynput key is a \<^verbatim>\<open>KeyCode\<close> (attribute \<^verbatim>\<open>char\<close>, possibly \<^verbatim>\<open>None\<close>, no attribute
  \<^verbatim>\<open>name\<close>) or a member of the enumeration \<^verbatim>\<open>Key\<close> (attribute \<^verbatim>\<open>name\<close>).
\<close>

datatype key = KeyCode "string option" | Key string

fun key_name :: "key \<Rightarrow> exn + string" where
  "key_name (KeyCode (Some c)) = Inr c"
| "key_name (KeyCode None) = Inl AttributeError"
| "key_name (Key n) = Inr n"

definition on_press :: "pyfloat \<Rightarrow> key \<Rightarrow> recorder \<Rightarrow> recorder" where
  "on_press ts k s =
     (if \<not> is_paused s \<and> is_recording s
      then (case key_name k of
              Inr n \<Rightarrow> put (mk_event ts ''press'' [(''name'', JStr n)]) s
            | Inl e \<Rightarrow> s)
      else s)"

definition on_release :: "pyfloat \<Rightarrow> key \<Rightarrow> recorder \<Rightarrow> recorder" where
  "on_release ts k s =
     (if \<not> is_paused s \<and> is_recording s
      then (case key_name k of
              Inr n \<Rightarrow> put (mk_event ts ''release'' [(''name'', JStr n)]) s
            | Inl e \<Rightarrow> s)
      else s)"

definition macos_on_input ::
  "pyfloat \<Rightarrow> pyfloat \<Rightarrow> int \<Rightarrow> int \<Rightarrow> string option \<Rightarrow> bool option \<Rightarrow> string \<Rightarrow> recorder \<Rightarrow> recorder" where
  "macos_on_input ts wall x y button pressed event_type s =
     (if \<not> is_paused s \<and> is_recording s
      then put
        (if event_type = ''move'' \<and> (x > 0 \<or> y > 0)
         then mk_event ts ''move'' [(''x'', JInt x), (''y'', JInt y)]
         else if event_type = ''click''
         then mk_event ts ''click''
                [(''x'', JInt x), (''y'', JInt y),
                 (''button'', JStr (case button of None \<Rightarrow> ''unknown''
                                     | Some b \<Rightarrow> if b = [] then ''unknown'' else b)),
                 (''pressed'', JBool (case pressed of None \<Rightarrow> True | Some p \<Rightarrow> p))]
         else if event_type = ''sentinel''
         then mk_event ts ''sentinel'' [(''timestamp'', JFloat wall)]
         else mk_event ts event_type [(''x'', JInt x), (''y'', JInt y)]) s
      else s)"

section \<open>Pause and resume\<close>

text \<open>
  \<^verbatim>\<open>OBSClient.pause_recording\<close> and \<^verbatim>\<open>resume_recording\<close> forward to the websocket request
  client with no handler, and \<^verbatim>\<open>Recorder.pause_recording\<close> has none either: an error of the
  client leaves the method after the flag was set and before the event is enqueued.
\<close>

definition pause_recording :: "bool \<Rightarrow> pyfloat \<Rightarrow> recorder \<Rightarrow> outcome" where
  "pause_recording obs_raises ts s =
     (if \<not> is_paused s \<and> is_recording s
      then (let s1 = do_call ObsPause (s\<lparr>is_paused := True\<rparr>)
            in if obs_raises then Raised OBSError s1
               else Returned (put (mk_event ts ''pause'' []) s1))
      else Returned s)"

definition resume_recording :: "bool \<Rightarrow> pyfloat \<Rightarrow> recorder \<Rightarrow> outcome" where
  "resume_recording obs_raises ts s =
     (if is_paused s \<and> is_recording s
      then (let s1 = do_call ObsResume (s\<lparr>is_paused := False\<rparr>)
            in if obs_raises then Raised OBSError s1
               else Returned (put (mk_event ts ''resume'' []) s1))
      else Returned s)"

section \<open>Stop\<close>

record stop_env =
  monitor_stop_raises :: bool
  mouse_stop_raises :: bool
  keyboard_stop_raises :: bool
  end_collect_raises :: bool
  obs_stop_raises :: bool
  add_timings_raises :: bool
  flush_raises :: bool
  close_raises :: bool
  save_raises :: bool

text \<open>
  Each of the following is one \<^verbatim>\<open>try ... except Exception\<close> block of
  \<^verbatim>\<open>Recorder.stop_recording\<close>: an exception inside leaves the block and is logged.
  The delay \<^verbatim>\<open>time.sleep(0.5)\<close> before them, which stands in no block of its own, does not
  raise.
\<close>

definition stop_monitor :: "recorder \<Rightarrow> recorder" where
  "stop_monitor s =
     (case macos_monitor s of
        None \<Rightarrow> s
      | Some m \<Rightarrow> do_call MonitorStop (s\<lparr>macos_monitor := Some (m\<lparr>mon_running := False\<rparr>)\<rparr>))"

definition stop_keyboard :: "stop_env \<Rightarrow> recorder \<Rightarrow> recorder" where
  "stop_keyboard env s =
     (if keyboard_listener s = Listener True
      then (let s1 = do_call KeyboardStop s
            in if keyboard_stop_raises env then s1 else s1\<lparr>keyboard_listener := Listener False\<rparr>)
      else s)"

definition stop_listeners :: "stop_env \<Rightarrow> recorder \<Rightarrow> recorder" where
  "stop_listeners env s =
     (if darwin s \<and> use_fallback s \<and> macos_monitor s \<noteq> None
      then stop_monitor s
      else if mouse_listener s = Listener True
      then (let s1 = do_call MouseStop s
            in if mouse_stop_raises env then s1
               else stop_keyboard env (s1\<lparr>mouse_listener := Listener False\<rparr>))
      else stop_keyboard env s)"

definition finalize_metadata :: "recorder \<Rightarrow> recorder" where
  "finalize_metadata s = do_call EndCollect s"

definition stop_obs :: "stop_env \<Rightarrow> recorder \<Rightarrow> recorder" where
  "stop_obs env s =
     (let s1 = do_call ObsStop s
      in if obs_stop_raises env then s1 else do_call AddTimings s1)"

text \<open>
  Flushing a closed file raises \<^verbatim>\<open>ValueError\<close>; closing marks the file closed also when
  the close reports an error.
\<close>

definition close_events_file :: "stop_env \<Rightarrow> recorder \<Rightarrow> recorder" where
  "close_events_file env s =
     (let s1 = do_call FileFlush s
      in if flush_raises env \<or> file_closed s then s1
         else (do_call FileClose s1)\<lparr>file_closed := True\<rparr>)"

definition save_metadata :: "recorder \<Rightarrow> recorder" where
  "save_metadata s = do_call SaveMetadata s"

definition stop_flip :: "recorder \<Rightarrow> recorder" where
  "stop_flip s = s\<lparr>is_recording := False\<rparr>"

definition stop_teardown :: "stop_env \<Rightarrow> recorder \<Rightarrow> recorder" where
  "stop_teardown env s =
     do_call EmitStopped
       (save_metadata
         (close_events_file env
           (stop_obs env
             (finalize_metadata
               (stop_listeners env
                 (do_call Sleep s))))))"

definition stop_recording :: "stop_env \<Rightarrow> recorder \<Rightarrow> recorder" where
  "stop_recording env s =
     (if is_recording s then stop_teardown env (stop_flip s) else s)"

section \<open>The recording thread\<close>

text \<open>
  Writing a line to the events file; \<open>None\<close> is an exception: the \<^verbatim>\<open>ValueError\<close> of a
  closed file, or an error of the write or of its flush, which is the input \<open>err\<close>. Every
  write of the source is followed by a flush, so a written line is in the file. Errors of
  the disk are inputs of the writes inside the loop, where the source catches them and goes
  on; the writes before and after the loop are taken to fail on a closed file only.
\<close>

definition write_line :: "bool \<Rightarrow> event \<Rightarrow> recorder \<Rightarrow> recorder option" where
  "write_line err e s =
     (if file_closed s \<or> err then None
      else Some (s\<lparr>events_file := events_file s @ [e]\<rparr>))"

text \<open>
  What the other threads do while the recording thread runs: the listener callbacks, the
  pause and resume requests of the control thread (the client's error goes to the caller),
  and \<^verbatim>\<open>stop_recording\<close> in two parts: its first statement, which clears the flag the loop
  tests, and the teardown that follows it. \<^verbatim>\<open>stop_recording\<close> does not wait for the
  recording thread, so its teardown, which closes the log, can run while the recording
  thread is still in the loop or before its last write. The teardown runs only after the
  flag was cleared.
\<close>

datatype op =
    Move pyfloat int int
  | Click pyfloat int int string bool
  | Scroll pyfloat int int int int
  | Press pyfloat key
  | Release pyfloat key
  | MacInput pyfloat pyfloat int int "string option" "bool option" string
  | Pause bool pyfloat
  | Resume bool pyfloat
  | StopFlag
  | Teardown stop_env

fun apply_op :: "op \<Rightarrow> recorder \<Rightarrow> recorder" where
  "apply_op (Move ts x y) s = on_move ts x y s"
| "apply_op (Click ts x y b p) s = on_click ts x y b p s"
| "apply_op (Scroll ts x y dx dy) s = on_scroll ts x y dx dy s"
| "apply_op (Press ts k) s = on_press ts k s"
| "apply_op (Release ts k) s = on_release ts k s"
| "apply_op (MacInput ts w x y b p ty) s = macos_on_input ts w x y b p ty s"
| "apply_op (Pause r ts) s = state_of (pause_recording r ts s)"
| "apply_op (Resume r ts) s = state_of (resume_recording r ts s)"
| "apply_op StopFlag s = (if is_recording s then stop_flip s else s)"
| "apply_op (Teardown env) s = (if is_recording s then s else stop_teardown env s)"

fun apply_ops :: "op list \<Rightarrow> recorder \<Rightarrow> recorder" where
  "apply_ops [] s = s"
| "apply_ops (x # xs) s = apply_ops xs (apply_op x s)"

text \<open>
  One iteration of the loop in \<^verbatim>\<open>Recorder.run\<close>. \<open>now\<close> is \<^verbatim>\<open>time.time()\<close> at the top of
  the iteration, \<open>pc\<close> the performance counter, \<open>write_raises\<close> says that the writes of
  this iteration raise, \<open>ops\<close> is what the other threads did until
  \<^verbatim>\<open>event_queue.get(timeout=0.5)\<close> returned or timed out. An exception in the body is
  caught by the handler of the loop body and the loop goes on.
\<close>

record tick =
  now :: pyfloat
  pc :: pyfloat
  write_raises :: bool
  ops :: "op list"

record loop_vars =
  last_sentinel_time :: pyfloat
  last_file_write_time :: pyfloat
  events_count :: nat

definition direct_sentinel :: "tick \<Rightarrow> event" where
  "direct_sentinel t = mk_event (pc t) ''direct_sentinel'' [(''timestamp'', JFloat (now t))]"

definition sentinel_event :: "tick \<Rightarrow> event" where
  "sentinel_event t = mk_event (pc t) ''sentinel'' [(''timestamp'', JFloat (now t))]"

definition check_direct ::
  "(pyfloat \<Rightarrow> pyfloat \<Rightarrow> pyfloat) \<Rightarrow> tick \<Rightarrow> recorder \<times> loop_vars \<Rightarrow> (recorder \<times> loop_vars) option" where
  "check_direct fsub t sv =
     (case sv of (s, v) \<Rightarrow>
        if fsub (now t) (last_file_write_time v) > 5
        then (case write_line (write_raises t) (direct_sentinel t) s of
                None \<Rightarrow> None
              | Some s1 \<Rightarrow> Some (s1, v\<lparr>last_file_write_time := now t\<rparr>))
        else Some (s, v))"

definition process_queue ::
  "(pyfloat \<Rightarrow> pyfloat \<Rightarrow> pyfloat) \<Rightarrow> tick \<Rightarrow> recorder \<times> loop_vars \<Rightarrow> recorder \<times> loop_vars" where
  "process_queue fsub t sv =
     (case sv of (s, v) \<Rightarrow>
        (case event_queue s of
           e # q \<Rightarrow>
             (case write_line (write_raises t) e (s\<lparr>event_queue := q\<rparr>) of
                None \<Rightarrow> (s\<lparr>event_queue := q\<rparr>, v)
              | Some s1 \<Rightarrow>
                  (s1, v\<lparr>events_count := Suc (events_count v), last_file_write_time := now t\<rparr>))
         | [] \<Rightarrow>
             if fsub (now t) (last_sentinel_time v) > 2
             then (put (sentinel_event t) s, v\<lparr>last_sentinel_time := now t\<rparr>)
             else (s, v)))"

definition loop_body ::
  "(pyfloat \<Rightarrow> pyfloat \<Rightarrow> pyfloat) \<Rightarrow> tick \<Rightarrow> recorder \<times> loop_vars \<Rightarrow> recorder \<times> loop_vars" where
  "loop_body fsub t sv =
     (case check_direct fsub t sv of
        None \<Rightarrow> (apply_ops (ops t) (fst sv), snd sv)
      | Some (s1, v1) \<Rightarrow> process_queue fsub t (apply_ops (ops t) s1, v1))"

text \<open>
  The loop runs while the flag is set. The list of ticks is the schedule of the other
  threads; \<open>None\<close> says that the schedule ended with the flag still set, so that the loop
  has not returned.
\<close>

fun run_loop ::
  "(pyfloat \<Rightarrow> pyfloat \<Rightarrow> pyfloat) \<Rightarrow> tick list \<Rightarrow> recorder \<times> loop_vars
     \<Rightarrow> (recorder \<times> loop_vars) option" where
  "run_loop fsub ts (s, v) =
     (if \<not> is_recording s then Some (s, v)
      else (case ts of
              [] \<Rightarrow> None
            | t # ts' \<Rightarrow> run_loop fsub ts' (loop_body fsub t (s, v))))"

text \<open>The capture method as \<^verbatim>\<open>Recorder.run\<close> determines it from the fields set by the constructor.\<close>

fun truthy :: "listener_attr \<Rightarrow> bool" where
  "truthy (Listener r) = True"
| "truthy AttrNone = False"
| "truthy NoAttr = False"

definition capture_method :: "recorder \<Rightarrow> string" where
  "capture_method s =
     (if darwin s \<and> (use_fallback s \<or> thread_handle_error_detected s)
      then (if thread_handle_error_detected s
            then ''macOS_fallback_due_to_pynput_error''
            else ''macOS_fallback_due_to_permissions'')
      else if truthy (mouse_listener s) \<and> truthy (keyboard_listener s)
      then ''pynput_listeners''
      else ''none'')"

datatype start_outcome = Started bool | ThreadHandleError string | OtherTypeError | OtherException

record run_env =
  collect_raises :: bool
  obs_start_raises :: bool
  float_sub :: "pyfloat \<Rightarrow> pyfloat \<Rightarrow> pyfloat"
  pc_start :: pyfloat
  pc_method :: pyfloat
  pc_listeners :: pyfloat
  pc_heartbeat :: pyfloat
  pc_end :: pyfloat
  monitor_start_raises :: bool
  mouse_start :: start_outcome
  keyboard_start :: start_outcome
  startup_ops :: "op list"
  time_sentinel0 :: pyfloat
  time_write0 :: pyfloat
  ticks :: "tick list"

definition new_monitor :: monitor where
  "new_monitor =
     \<lparr>mon_running = False, permission_check_count = 0, max_permission_checks = 3,
      mon_started = False\<rparr>"

text \<open>
  \<^verbatim>\<open>MacOSInputMonitor.start\<close>: the flag is set, then the thread is created and started.
\<close>

definition monitor_start :: "run_env \<Rightarrow> monitor \<Rightarrow> recorder \<Rightarrow> outcome" where
  "monitor_start env m s =
     (let s1 = do_call MonitorStart (s\<lparr>macos_monitor := Some (m\<lparr>mon_running := True\<rparr>)\<rparr>)
      in if monitor_start_raises env then Raised OtherError s1
         else Returned (s1\<lparr>macos_monitor := Some (m\<lparr>mon_running := True, mon_started := True\<rparr>)\<rparr>))"

definition write_or_raise :: "event \<Rightarrow> recorder \<Rightarrow> outcome" where
  "write_or_raise e s = (case write_line False e s of None \<Rightarrow> Raised OtherError s | Some s1 \<Rightarrow> Returned s1)"

text \<open>The handler \<^verbatim>\<open>except TypeError\<close> around the start of the pynput listeners.\<close>

definition handle_start_error :: "run_env \<Rightarrow> start_outcome \<Rightarrow> recorder \<Rightarrow> outcome \<times> bool" where
  "handle_start_error env out s =
     (case out of
        ThreadHandleError msg \<Rightarrow>
          if darwin s \<and> macos_monitor s = None
          then (case monitor_start env new_monitor s of
                  Raised e s1 \<Rightarrow> (Raised e s1, False)
                | Returned s1 \<Rightarrow>
                    (write_or_raise (mk_event (pc_listeners env) ''recovered_with_fallback_monitor''
                                       [(''error'', JStr msg)]) s1, True))
          else (Returned s, False)
      | OtherTypeError \<Rightarrow> (Returned s, False)
      | OtherException \<Rightarrow> (Raised OtherError s, False)
      | Started r \<Rightarrow> (Returned s, False))"

definition start_pynput :: "run_env \<Rightarrow> recorder \<Rightarrow> outcome \<times> bool" where
  "start_pynput env s =
     (let s1 = do_call MouseStart s in
      case mouse_start env of
        Started mr \<Rightarrow>
          (let s2 = do_call KeyboardStart (s1\<lparr>mouse_listener := Listener mr\<rparr>) in
           case keyboard_start env of
             Started kr \<Rightarrow>
               (let s3 = s2\<lparr>keyboard_listener := Listener kr\<rparr> in
                (write_or_raise (mk_event (pc_listeners env) ''input_listeners_started''
                                   [(''mouse_running'', JBool mr), (''keyboard_running'', JBool kr)]) s3,
                 mr \<and> kr))
           | out \<Rightarrow> handle_start_error env out s2)
      | out \<Rightarrow> handle_start_error env out s1)"

definition start_listeners :: "run_env \<Rightarrow> string \<Rightarrow> recorder \<Rightarrow> outcome \<times> bool" where
  "start_listeners env method s =
     (if prefix ''macOS_fallback'' method
      then (case macos_monitor s of
              None \<Rightarrow> (Raised AttributeError s, False)
            | Some m \<Rightarrow>
                (case monitor_start env m s of
                   Raised e s1 \<Rightarrow> (Raised e s1, False)
                 | Returned s1 \<Rightarrow>
                     (write_or_raise (mk_event (pc_listeners env) ''macos_fallback_monitor_started''
                                        [(''reason'', JStr method)]) s1, True)))
      else if method = ''pynput_listeners''
      then start_pynput env s
      else (write_or_raise (mk_event (pc_listeners env) ''input_listeners_unavailable'' []) s, False))"

text \<open>
  The outer \<^verbatim>\<open>try\<close> of \<^verbatim>\<open>run\<close>: an exception anywhere inside is logged and control reaches
  the final event. \<open>None\<close>: the loop has not returned.
\<close>

definition try_block :: "run_env \<Rightarrow> string \<Rightarrow> recorder \<Rightarrow> recorder option" where
  "try_block env method s =
     (case start_listeners env method s of
        (Raised e s1, lw) \<Rightarrow> Some s1
      | (Returned s1, lw) \<Rightarrow>
          (case write_line False (mk_event (pc_heartbeat env) ''heartbeat''
                              [(''message'', JStr ''Recording active''),
                               (''capture_method'', JStr method),
                               (''listeners_working'', JBool lw)]) s1 of
             None \<Rightarrow> Some s1
           | Some s2 \<Rightarrow>
               map_option fst
                 (run_loop (float_sub env) (ticks env)
                    (apply_ops (startup_ops env) s2,
                     \<lparr>last_sentinel_time = time_sentinel0 env,
                      last_file_write_time = time_write0 env,
                      events_count = 0\<rparr>))))"

definition final_event :: "run_env \<Rightarrow> recorder \<Rightarrow> recorder" where
  "final_event env s =
     (case write_line False (mk_event (pc_end env) ''recording_ended'' []) s of
        None \<Rightarrow> s
      | Some s1 \<Rightarrow> s1)"

definition run :: "run_env \<Rightarrow> recorder \<Rightarrow> outcome option" where
  "run env s =
     (let s1 = do_call Collect (s\<lparr>is_recording := True\<rparr>) in
      if collect_raises env then Some (Raised OtherError s1)
      else
        let s2 = do_call ObsStart s1 in
        if obs_start_raises env then Some (Raised OBSError s2)
        else
          (case write_line False (mk_event (pc_start env) ''recording_started'' []) s2 of
             None \<Rightarrow> Some (Raised OtherError s2)
           | Some s3 \<Rightarrow>
               (case write_line False (mk_event (pc_method env) ''input_capture_method''
                                   [(''method'', JStr (capture_method s3))]) s3 of
                  None \<Rightarrow> Some (Raised OtherError s3)
                | Some s4 \<Rightarrow>
                    map_option (\<lambda>s5. Returned (final_event env s5))
                      (try_block env (capture_method s4) s4))))"

section \<open>The fallback monitor\<close>

text \<open>
  What \<^verbatim>\<open>subprocess.run(['osascript', ...])\<close> gives: an exception, or a completed process
  with its return code and its output. The output is given as read by the source: whether
  it is empty, and the pieces of \<^verbatim>\<open>stdout.strip().split(', ')\<close>, each as the value of
  \<^verbatim>\<open>int(piece)\<close> or \<open>None\<close> where \<^verbatim>\<open>int\<close> raises \<^verbatim>\<open>ValueError\<close>.
\<close>

datatype osascript_result =
    RunRaises
  | Completed (returncode: int) (stdout_empty: bool) (parts: "int option list")

fun get_mouse_position :: "osascript_result \<Rightarrow> exn + (int \<times> int)" where
  "get_mouse_position RunRaises = Inr (0, 0)"
| "get_mouse_position (Completed rc emp ps) =
     (if rc \<noteq> 0 then Inr (0, 0)
      else if \<not> emp
      then (case ps of
              [Some x, Some y] \<Rightarrow> Inr (x, y)
            | _ \<Rightarrow> Inr (0, 0))
      else Inr (0, 0))"

record poll =
  poll_time :: pyfloat
  poll_pc :: pyfloat
  sample :: osascript_result

text \<open>
  One iteration of the loop of \<^verbatim>\<open>MacOSInputMonitor._run_monitor\<close>; its callback is
  \<^verbatim>\<open>Recorder.macos_on_input\<close>. The call of osascript is recorded in \<open>calls\<close>.
\<close>

definition sample_position :: "poll \<Rightarrow> monitor \<Rightarrow> recorder \<Rightarrow> recorder" where
  "sample_position p m s =
     (if permission_check_count m < max_permission_checks m
      then (let s1 = do_call Osascript s in
            case get_mouse_position (sample p) of
              Inr (x, y) \<Rightarrow>
                if x > 0 \<or> y > 0
                then macos_on_input (poll_pc p) (poll_time p) x y None None ''move'' s1
                else s1
            | Inl e \<Rightarrow>
                s1\<lparr>macos_monitor :=
                     Some (m\<lparr>permission_check_count := Suc (permission_check_count m)\<rparr>)\<rparr>)
      else s)"

definition monitor_iter ::
  "(pyfloat \<Rightarrow> pyfloat \<Rightarrow> pyfloat) \<Rightarrow> poll \<Rightarrow> recorder \<times> pyfloat \<Rightarrow> recorder \<times> pyfloat" where
  "monitor_iter fsub p sl =
     (case sl of (s, lst) \<Rightarrow>
        (case macos_monitor s of
           None \<Rightarrow> (s, lst)
         | Some m \<Rightarrow>
             (let s1 = sample_position p m s in
              if fsub (poll_time p) lst > 2
              then (macos_on_input (poll_pc p) (poll_time p) 0 0 None None ''sentinel'' s1, poll_time p)
              else (s1, lst))))"

text \<open>The iterations the loop makes on the given polls while the monitor is running.\<close>

fun run_monitor ::
  "(pyfloat \<Rightarrow> pyfloat \<Rightarrow> pyfloat) \<Rightarrow> poll list \<Rightarrow> recorder \<times> pyfloat \<Rightarrow> recorder \<times> pyfloat" where
  "run_monitor fsub [] sl = sl"
| "run_monitor fsub (p # ps) sl =
     (case macos_monitor (fst sl) of
        None \<Rightarrow> sl
      | Some m \<Rightarrow> if mon_running m then run_monitor fsub ps (monitor_iter fsub p sl) else sl)"

section \<open>Construction and backend selection\<close>

datatype probe = ProbeOk | ProbeThreadHandle | ProbeTypeError | ProbeException

record init_env =
  sys_darwin :: bool
  smoke_test :: probe
  osascript_raises :: bool
  osascript_returncode :: int
  permission_probe :: probe
  obs_connect_fails :: bool
  mouse_ctor_raises :: bool
  keyboard_ctor_raises :: bool
  listener_test :: probe

definition check_macos_permissions :: "init_env \<Rightarrow> bool" where
  "check_macos_permissions env =
     (if \<not> sys_darwin env then True
      else if osascript_raises env then False
      else if osascript_returncode env \<noteq> 0 then False
      else (case permission_probe env of ProbeOk \<Rightarrow> True | _ \<Rightarrow> False))"

text \<open>The first part of \<^verbatim>\<open>Recorder.__init__\<close>: the pair of flags after the pynput test.\<close>

definition initial_flags :: "init_env \<Rightarrow> bool \<times> bool" where
  "initial_flags env =
     (if sys_darwin env
      then (case smoke_test env of
              ProbeThreadHandle \<Rightarrow> (True, True)
            | _ \<Rightarrow> (\<not> check_macos_permissions env, False))
      else (False, False))"

definition switch_to_fallback :: "recorder \<Rightarrow> recorder" where
  "switch_to_fallback s =
     s\<lparr>macos_monitor := Some new_monitor, mouse_listener := AttrNone,
       keyboard_listener := AttrNone\<rparr>"

text \<open>The handler \<^verbatim>\<open>except Exception\<close> around the creation of the listeners.\<close>

definition init_failed :: "recorder \<Rightarrow> recorder" where
  "init_failed s =
     (if darwin s then (switch_to_fallback s)\<lparr>use_fallback := True\<rparr> else s)"

definition init_listeners :: "init_env \<Rightarrow> recorder \<Rightarrow> recorder" where
  "init_listeners env s =
     (if darwin s \<and> (use_fallback s \<or> thread_handle_error_detected s)
      then switch_to_fallback s
      else if mouse_ctor_raises env then init_failed s
      else
        let s1 = s\<lparr>mouse_listener := Listener False\<rparr> in
        if keyboard_ctor_raises env then init_failed s1
        else
          let s2 = s1\<lparr>keyboard_listener := Listener False\<rparr> in
          (case listener_test env of
             ProbeOk \<Rightarrow> s2
           | ProbeThreadHandle \<Rightarrow>
               switch_to_fallback (s2\<lparr>thread_handle_error_detected := True, use_fallback := True\<rparr>)
           | _ \<Rightarrow> init_failed s2))"

text \<open>
  The object when \<^verbatim>\<open>OBSClient(...)\<close> is constructed: the flags are set, the queue is
  created, and \<^verbatim>\<open>events.jsonl\<close> of the new recording directory is open and empty.
\<close>

definition init_fields :: "init_env \<Rightarrow> recorder" where
  "init_fields env =
     (case initial_flags env of (uf, thd) \<Rightarrow>
        \<lparr>darwin = sys_darwin env, use_fallback = uf, thread_handle_error_detected = thd,
         is_recording = False, is_paused = False, event_queue = [], events_file = [],
         file_closed = False, mouse_listener = NoAttr, keyboard_listener = NoAttr,
         macos_monitor = None, calls = []\<rparr>)"

text \<open>
  \<^verbatim>\<open>Recorder.__init__\<close>. The constructor of the OBS client raises when the websocket cannot
  be reached after its three attempts; nothing catches that here.
\<close>

definition Recorder_init :: "init_env \<Rightarrow> exn + recorder" where
  "Recorder_init env =
     (if obs_connect_fails env then Inl OBSError
      else Inr (init_listeners env (init_fields env)))"

section \<open>Vocabulary of the properties\<close>

text \<open>
  A line of the log came through the queue unless it is a \<open>direct_sentinel\<close>, which the
  loop writes itself. No producer of the source submits an event named
  \<open>direct_sentinel\<close>; \<open>op_ok\<close> says so for the callback of the fallback monitor, whose
  event name is an argument. \<open>no_teardown\<close> holds of every operation but the teardown of
  Stop, and an iteration is \<open>clean\<close> when its writes do not raise and the teardown does not
  run during it.
\<close>

definition queued :: "event \<Rightarrow> bool" where
  "queued e = (action e \<noteq> ''direct_sentinel'')"

fun op_ok :: "op \<Rightarrow> bool" where
  "op_ok (MacInput ts w x y b p ty) = (ty \<noteq> ''direct_sentinel'')"
| "op_ok x = True"

fun no_teardown :: "op \<Rightarrow> bool" where
  "no_teardown (Teardown env) = False"
| "no_teardown x = True"

definition clean :: "tick \<Rightarrow> bool" where
  "clean t = (\<not> write_raises t \<and> list_all no_teardown (ops t))"

text \<open>
  The recorder and the loop variables after the iterations that the loop makes on a
  schedule: \<open>run_loop\<close> observed when the schedule ends, also when the flag is still set.
\<close>

fun run_ticks ::
  "(pyfloat \<Rightarrow> pyfloat \<Rightarrow> pyfloat) \<Rightarrow> tick list \<Rightarrow> recorder \<times> loop_vars \<Rightarrow> recorder \<times> loop_vars" where
  "run_ticks fsub [] sv = sv"
| "run_ticks fsub (t # ts) sv =
     (if is_recording (fst sv) then run_ticks fsub ts (loop_body fsub t sv) else sv)"

text \<open>
  The invariant of the writer loop, relative to the queue-written lines \<open>f0\<close> and the queue
  \<open>q0\<close> at its start: of the events that went through the queue since, \<open>q0 @ new\<close>, the
  first \<open>k\<close> were taken out, the lines \<open>w\<close> written since are among them in their order,
  and the rest waits; while \<open>exact\<close> holds the log is open and every event taken out was
  written.
\<close>

definition fifo_inv :: "event list \<Rightarrow> event list \<Rightarrow> bool \<Rightarrow> recorder \<Rightarrow> bool" where
  "fifo_inv f0 q0 exact s =
     (\<exists>new w k. k \<le> length (q0 @ new) \<and> list_all queued (q0 @ new) \<and>
        filter queued (events_file s) = f0 @ w \<and>
        subseq w (take k (q0 @ new)) \<and>
        event_queue s = drop k (q0 @ new) \<and>
        (exact \<longrightarrow> w = take k (q0 @ new) \<and> \<not> file_closed s))"

text \<open>
  \<open>grows s s'\<close>: from \<open>s\<close> to \<open>s'\<close> the log stayed open and only gained lines at its end.
\<close>

definition grows :: "recorder \<Rightarrow> recorder \<Rightarrow> bool" where
  "grows s s' = (\<not> file_closed s' \<and> prefix (events_file s) (events_file s'))"

text \<open>
  \<open>native_ok\<close>: the constructor reaches the native listeners on macOS. The first pynput
  test does not raise the capability error (another exception of that test is logged and
  the constructor goes on to the permission check), the permission check passes, both
  listeners are created, and their test passes. \<open>base_recorder\<close> is the object of
  \<open>init_fields\<close> with the platform and the two flags as arguments.
\<close>

definition native_ok :: "init_env \<Rightarrow> bool" where
  "native_ok env =
     (smoke_test env \<noteq> ProbeThreadHandle \<and> check_macos_permissions env \<and>
      \<not> mouse_ctor_raises env \<and> \<not> keyboard_ctor_raises env \<and> listener_test env = ProbeOk)"

definition base_recorder :: "bool \<Rightarrow> bool \<Rightarrow> bool \<Rightarrow> recorder" where
  "base_recorder d uf thd =
     \<lparr>darwin = d, use_fallback = uf, thread_handle_error_detected = thd,
      is_recording = False, is_paused = False, event_queue = [], events_file = [],
      file_closed = False, mouse_listener = NoAttr, keyboard_listener = NoAttr,
      macos_monitor = None, calls = []\<rparr>"

section \<open>Concrete inputs\<close>

definition plain_env :: init_env where
  "plain_env =
     \<lparr>sys_darwin = False, smoke_test = ProbeOk, osascript_raises = False,
      osascript_returncode = 0, permission_probe = ProbeOk, obs_connect_fails = False,
      mouse_ctor_raises = False, keyboard_ctor_raises = False, listener_test = ProbeOk\<rparr>"

definition fresh_recorder :: recorder where
  "fresh_recorder = init_listeners plain_env (init_fields plain_env)"

definition recording_recorder :: recorder where
  "recording_recorder = fresh_recorder\<lparr>is_recording := True\<rparr>"

definition paused_recorder :: recorder where
  "paused_recorder = recording_recorder\<lparr>is_paused := True\<rparr>"

definition failing_stop_env :: stop_env where
  "failing_stop_env =
     \<lparr>monitor_stop_raises = True, mouse_stop_raises = True, keyboard_stop_raises = True,
      end_collect_raises = True, obs_stop_raises = True, add_timings_raises = True,
      flush_raises = True, close_raises = True, save_raises = True\<rparr>"

definition quiet_stop_env :: stop_env where
  "quiet_stop_env =
     \<lparr>monitor_stop_raises = False, mouse_stop_raises = False, keyboard_stop_raises = False,
      end_collect_raises = False, obs_stop_raises = False, add_timings_raises = False,
      flush_raises = False, close_raises = False, save_raises = False\<rparr>"

definition demo_vars :: loop_vars where
  "demo_vars = \<lparr>last_sentinel_time = 0, last_file_write_time = 0, events_count = 0\<rparr>"

definition demo_ticks :: "tick list" where
  "demo_ticks =
     [\<lparr>now = 1/2, pc = 6, write_raises = False, ops = [Move 1 10 20, Move 2 11 21]\<rparr>,
      \<lparr>now = 1, pc = 7, write_raises = False, ops = [Click 3 11 21 ''left'' True]\<rparr>,
      \<lparr>now = 3/2, pc = 8, write_raises = False, ops = []\<rparr>,
      \<lparr>now = 7, pc = 9, write_raises = False, ops = [StopFlag]\<rparr>]"

text \<open>
  The same schedule with a write error in the second iteration, and with the teardown of
  Stop run to its end before the loop tests the flag again.
\<close>

definition faulty_ticks :: "tick list" where
  "faulty_ticks =
     [\<lparr>now = 1/2, pc = 6, write_raises = False, ops = [Move 1 10 20, Move 2 11 21]\<rparr>,
      \<lparr>now = 1, pc = 7, write_raises = True, ops = [Click 3 11 21 ''left'' True]\<rparr>,
      \<lparr>now = 3/2, pc = 8, write_raises = False, ops = []\<rparr>,
      \<lparr>now = 7, pc = 9, write_raises = False, ops = [StopFlag]\<rparr>]"

definition overtaken_ticks :: "tick list" where
  "overtaken_ticks =
     [\<lparr>now = 1/2, pc = 6, write_raises = False, ops = [Move 1 10 20]\<rparr>,
      \<lparr>now = 1, pc = 7, write_raises = False, ops = [StopFlag, Teardown quiet_stop_env]\<rparr>]"

definition demo_run_env :: run_env where
  "demo_run_env =
     \<lparr>collect_raises = False, obs_start_raises = False, float_sub = (-), pc_start = 1,
      pc_method = 2, pc_listeners = 3, pc_heartbeat = 4, pc_end = 10,
      monitor_start_raises = False, mouse_start = Started True, keyboard_start = Started True,
      startup_ops = [], time_sentinel0 = 0, time_write0 = 0, ticks = demo_ticks\<rparr>"

definition failing_start_env :: run_env where
  "failing_start_env = demo_run_env\<lparr>obs_start_raises := True\<rparr>"

definition faulty_run_env :: run_env where
  "faulty_run_env = demo_run_env\<lparr>ticks := faulty_ticks\<rparr>"

definition overtaken_env :: run_env where
  "overtaken_env = demo_run_env\<lparr>ticks := overtaken_ticks\<rparr>"

definition failing_listener_env :: run_env where
  "failing_listener_env = demo_run_env\<lparr>keyboard_start := OtherException\<rparr>"

definition quiet_ticks :: "tick list" where
  "quiet_ticks =
     [\<lparr>now = 0, pc = 0, write_raises = False, ops = []\<rparr>,
      \<lparr>now = 1/2, pc = 1/2, write_raises = False, ops = []\<rparr>,
      \<lparr>now = 1, pc = 1, write_raises = False, ops = []\<rparr>,
      \<lparr>now = 3/2, pc = 3/2, write_raises = False, ops = []\<rparr>,
      \<lparr>now = 2, pc = 2, write_raises = False, ops = []\<rparr>,
      \<lparr>now = 5/2, pc = 5/2, write_raises = False, ops = [Move (23/8) 10 20]\<rparr>]"

definition late_tick :: tick where
  "late_tick = \<lparr>now = 6, pc = 9, write_raises = False, ops = [StopFlag]\<rparr>"

definition busy_tick :: tick where
  "busy_tick = \<lparr>now = 6, pc = 9, write_raises = False, ops = [Move (11/2) 10 20]\<rparr>"

definition denied_env :: init_env where
  "denied_env = plain_env\<lparr>sys_darwin := True, osascript_returncode := 1\<rparr>"

definition fallback_recorder :: recorder where
  "fallback_recorder =
     (init_listeners denied_env (init_fields denied_env))
       \<lparr>is_recording := True,
        macos_monitor := Some (new_monitor\<lparr>mon_running := True, mon_started := True\<rparr>)\<rparr>"

definition failed_poll :: "pyfloat \<Rightarrow> poll" where
  "failed_poll t = \<lparr>poll_time = t, poll_pc = t, sample = Completed 1 True []\<rparr>"

definition failing_polls :: "poll list" where
  "failing_polls =
     [failed_poll 0, failed_poll (1/2), failed_poll 1, failed_poll (3/2), failed_poll 2,
      failed_poll (5/2)]"

definition darwin_env :: init_env where
  "darwin_env = plain_env\<lparr>sys_darwin := True\<rparr>"

definition thread_handle_env :: init_env where
  "thread_handle_env = darwin_env\<lparr>smoke_test := ProbeThreadHandle\<rparr>"

definition broken_listener_env :: init_env where
  "broken_listener_env = darwin_env\<lparr>listener_test := ProbeException\<rparr>"

definition capability_env :: init_env where
  "capability_env = plain_env\<lparr>listener_test := ProbeThreadHandle\<rparr>"

definition no_listener_env :: init_env where
  "no_listener_env = plain_env\<lparr>mouse_ctor_raises := True\<rparr>"

definition smoke_exception_env :: init_env where
  "smoke_exception_env = darwin_env\<lparr>smoke_test := ProbeException\<rparr>"

text \<open>
  A session on macOS with the native listeners chosen, in which
  \<^verbatim>\<open>mouse_listener.start()\<close> raises the capability error and \<^verbatim>\<open>run\<close> recovers with the
  fallback monitor; one move arrives and then Stop is requested.
\<close>

definition darwin_recorder :: recorder where
  "darwin_recorder = init_listeners darwin_env (init_fields darwin_env)"

definition recovery_ticks :: "tick list" where
  "recovery_ticks =
     [\<lparr>now = 1/2, pc = 6, write_raises = False,
       ops = [MacInput 5 (1/2) 10 20 None None ''move'']\<rparr>,
      \<lparr>now = 1, pc = 7, write_raises = False, ops = [StopFlag]\<rparr>]"

definition recovery_env :: run_env where
  "recovery_env =
     demo_run_env\<lparr>mouse_start := ThreadHandleError ''_ThreadHandle object is not callable'',
                  ticks := recovery_ticks\<rparr>"

text \<open>The same start, with Stop requested during the first iteration.\<close>

definition short_recovery_env :: run_env where
  "short_recovery_env =
     recovery_env\<lparr>ticks := [\<lparr>now = 1/2, pc = 6, write_raises = False, ops = [StopFlag]\<rparr>]\<rparr>"

text \<open>The recorder when \<^verbatim>\<open>run\<close> has returned in that session.\<close>

definition recovered_recorder :: recorder where
  "recovered_recorder =
     darwin_recorder
       \<lparr>is_recording := False,
        events_file :=
          [mk_event 1 ''recording_started'' [],
           mk_event 2 ''input_capture_method'' [(''method'', JStr ''pynput_listeners'')],
           mk_event 3 ''recovered_with_fallback_monitor''
             [(''error'', JStr ''_ThreadHandle object is not callable'')],
           mk_event 4 ''heartbeat''
             [(''message'', JStr ''Recording active''),
              (''capture_method'', JStr ''pynput_listeners''),
              (''listeners_working'', JBool True)],
           mk_event 5 ''move'' [(''x'', JInt 10), (''y'', JInt 20)],
           mk_event 10 ''recording_ended'' []],
        macos_monitor := Some (new_monitor\<lparr>mon_running := True, mon_started := True\<rparr>),
        calls := [Collect, ObsStart, MouseStart, MonitorStart]\<rparr>"

section \<open>Preservation lemmas\<close>

lemma fresh_simps:
  "fresh_recorder = \<lparr>darwin = False, use_fallback = False, thread_handle_error_detected = False,
         is_recording = False, is_paused = False, event_queue = [], events_file = [],
         file_closed = False, mouse_listener = Listener False, keyboard_listener = Listener False,
         macos_monitor = None, calls = []\<rparr>"
  by (simp add: fresh_recorder_def init_listeners_def init_fields_def initial_flags_def plain_env_def)

lemma is_recording_do_call [simp]: "is_recording (do_call c s) = is_recording s"
  by (simp add: do_call_def)

lemma is_recording_stop_keyboard [simp]: "is_recording (stop_keyboard env s) = is_recording s"
  by (simp add: stop_keyboard_def Let_def)

lemma is_recording_stop_monitor [simp]: "is_recording (stop_monitor s) = is_recording s"
  by (simp add: stop_monitor_def split: option.splits)

lemma is_recording_stop_listeners [simp]: "is_recording (stop_listeners env s) = is_recording s"
  by (simp add: stop_listeners_def Let_def)

lemma is_recording_stop_obs [simp]: "is_recording (stop_obs env s) = is_recording s"
  by (simp add: stop_obs_def Let_def)

lemma is_recording_close [simp]: "is_recording (close_events_file env s) = is_recording s"
  by (simp add: close_events_file_def Let_def)

lemma is_recording_teardown [simp]: "is_recording (stop_teardown env s) = is_recording s"
  by (simp add: stop_teardown_def save_metadata_def finalize_metadata_def)

lemma stop_recording_flag [simp]: "\<not> is_recording (stop_recording env s)"
  by (simp add: stop_recording_def stop_flip_def)

lemma pause_wrong_state: "is_paused s \<or> \<not> is_recording s \<Longrightarrow> pause_recording r ts s = Returned s"
  by (auto simp: pause_recording_def)

lemma resume_wrong_state: "\<not> is_paused s \<or> \<not> is_recording s \<Longrightarrow> resume_recording r ts s = Returned s"
  by (auto simp: resume_recording_def)

lemma pause_sets_paused: "is_recording s \<Longrightarrow> is_paused (state_of (pause_recording r ts s))"
  by (simp add: pause_recording_def Let_def do_call_def put_def)

lemma pause_keeps_recording: "is_recording (state_of (pause_recording r ts s)) = is_recording s"
  by (simp add: pause_recording_def Let_def do_call_def put_def)

section \<open>Lifecycle operations in the wrong state\<close>

text \<open>
  C10. A lifecycle operation called in the wrong state returns the recorder as it was, so the
  flags, the queue, the log and the list of calls to the collaborators are unchanged:
  \<open>pause_recording\<close> when paused or not recording, \<open>resume_recording\<close> when not paused or
  not recording, \<open>stop_recording\<close> when not recording. Hence a second stop after a stop, and
  a second pause after a pause, change nothing.
\<close>

theorem wrong_state_noop:
  "(is_paused s \<or> \<not> is_recording s \<longrightarrow> pause_recording r ts s = Returned s) \<and>
   (\<not> is_paused s \<or> \<not> is_recording s \<longrightarrow> resume_recording r ts s = Returned s) \<and>
   (\<not> is_recording s \<longrightarrow> stop_recording env s = s) \<and>
   stop_recording env2 (stop_recording env s) = stop_recording env s \<and>
   pause_recording r2 ts2 (state_of (pause_recording r ts s)) = Returned (state_of (pause_recording r ts s))"
proof -
  have a: "is_paused s \<or> \<not> is_recording s \<longrightarrow> pause_recording r ts s = Returned s"
    using pause_wrong_state by blast
  have b: "\<not> is_paused s \<or> \<not> is_recording s \<longrightarrow> resume_recording r ts s = Returned s"
    using resume_wrong_state by blast
  have c: "\<not> is_recording s \<longrightarrow> stop_recording env s = s"
    by (simp add: stop_recording_def)
  have d: "stop_recording env2 (stop_recording env s) = stop_recording env s"
    using stop_recording_flag [of env s] by (simp only: stop_recording_def [of env2] if_False)
  have e: "pause_recording r2 ts2 (state_of (pause_recording r ts s))
           = Returned (state_of (pause_recording r ts s))"
  proof (cases "is_recording s")
    case True
    then show ?thesis by (intro pause_wrong_state disjI1 pause_sets_paused)
  next
    case False
    then show ?thesis by (intro pause_wrong_state disjI2) (simp add: pause_keeps_recording)
  qed
  from a b c d e show ?thesis by blast
qed

theorem wrong_state_noop_witness:
  "pause_recording True 5 paused_recorder = Returned paused_recorder \<and>
   resume_recording True 5 fresh_recorder = Returned fresh_recorder \<and>
   stop_recording failing_stop_env fresh_recorder = fresh_recorder"
  using wrong_state_noop [of paused_recorder True 5 failing_stop_env]
    wrong_state_noop [of fresh_recorder True 5 failing_stop_env]
  by (simp add: paused_recorder_def recording_recorder_def fresh_simps)

lemma calls_stop_keyboard:
  "\<exists>bs. set bs \<subseteq> {KeyboardStop} \<and> calls (stop_keyboard env s) = calls s @ bs"
  by (simp add: stop_keyboard_def Let_def do_call_def)

lemma calls_stop_monitor:
  "\<exists>bs. set bs \<subseteq> {MonitorStop} \<and> calls (stop_monitor s) = calls s @ bs"
  by (simp add: stop_monitor_def do_call_def split: option.splits)

lemma calls_stop_listeners:
  "\<exists>bs. set bs \<subseteq> {MonitorStop, MouseStop, KeyboardStop} \<and>
        calls (stop_listeners env s) = calls s @ bs"
proof -
  consider (mon) "darwin s \<and> use_fallback s \<and> macos_monitor s \<noteq> None"
    | (mouse) "\<not> (darwin s \<and> use_fallback s \<and> macos_monitor s \<noteq> None)" "mouse_listener s = Listener True"
    | (kb) "\<not> (darwin s \<and> use_fallback s \<and> macos_monitor s \<noteq> None)" "mouse_listener s \<noteq> Listener True"
    by blast
  then show ?thesis
  proof cases
    case mon
    obtain bs where "set bs \<subseteq> {MonitorStop}" "calls (stop_monitor s) = calls s @ bs"
      using calls_stop_monitor by blast
    with mon show ?thesis by (auto simp: stop_listeners_def)
  next
    case mouse
    show ?thesis
    proof (cases "mouse_stop_raises env")
      case True
      with mouse have "calls (stop_listeners env s) = calls s @ [MouseStop]"
        by (auto simp: stop_listeners_def Let_def do_call_def)
      then show ?thesis by simp
    next
      case False
      let ?s1 = "(do_call MouseStop s)\<lparr>mouse_listener := Listener False\<rparr>"
      obtain bs where bs: "set bs \<subseteq> {KeyboardStop}" "calls (stop_keyboard env ?s1) = calls ?s1 @ bs"
        using calls_stop_keyboard by blast
      from False mouse have "stop_listeners env s = stop_keyboard env ?s1"
        by (auto simp: stop_listeners_def Let_def)
      with bs have "calls (stop_listeners env s) = calls s @ (MouseStop # bs)"
        by (simp add: do_call_def)
      moreover from bs have "set (MouseStop # bs) \<subseteq> {MonitorStop, MouseStop, KeyboardStop}" by auto
      ultimately show ?thesis by blast
    qed
  next
    case kb
    obtain bs where bs: "set bs \<subseteq> {KeyboardStop}" "calls (stop_keyboard env s) = calls s @ bs"
      using calls_stop_keyboard by blast
    from kb have "stop_listeners env s = stop_keyboard env s"
      by (auto simp: stop_listeners_def)
    with bs show ?thesis by auto
  qed
qed

lemma calls_do_call [simp]: "calls (do_call c s) = calls s @ [c]"
  by (simp add: do_call_def)

lemma file_closed_do_call [simp]: "file_closed (do_call c s) = file_closed s"
  by (simp add: do_call_def)

lemma file_closed_stop_keyboard [simp]: "file_closed (stop_keyboard env s) = file_closed s"
  by (simp add: stop_keyboard_def Let_def)

lemma file_closed_stop_monitor [simp]: "file_closed (stop_monitor s) = file_closed s"
  by (simp add: stop_monitor_def split: option.splits)

lemma file_closed_stop_listeners [simp]: "file_closed (stop_listeners env s) = file_closed s"
  by (simp add: stop_listeners_def Let_def)

lemma file_closed_stop_obs [simp]: "file_closed (stop_obs env s) = file_closed s"
  by (simp add: stop_obs_def Let_def)

lemma calls_stop_obs:
  "calls (stop_obs env s) = calls s @ ObsStop # (if obs_stop_raises env then [] else [AddTimings])"
  by (simp add: stop_obs_def Let_def do_call_def)

lemma calls_close_events_file:
  "calls (close_events_file env s) =
     calls s @ FileFlush # (if flush_raises env \<or> file_closed s then [] else [FileClose])"
  by (simp add: close_events_file_def Let_def do_call_def)

lemma calls_stop_teardown:
  "\<exists>bs. set bs \<subseteq> {MonitorStop, MouseStop, KeyboardStop} \<and>
     calls (stop_teardown env s) =
       calls s @ [Sleep] @ bs @ [EndCollect, ObsStop]
         @ (if obs_stop_raises env then [] else [AddTimings])
         @ [FileFlush] @ (if flush_raises env \<or> file_closed s then [] else [FileClose])
         @ [SaveMetadata, EmitStopped]"
proof -
  obtain bs where bs: "set bs \<subseteq> {MonitorStop, MouseStop, KeyboardStop}"
      "calls (stop_listeners env (do_call Sleep s)) = calls (do_call Sleep s) @ bs"
    using calls_stop_listeners by blast
  have "calls (stop_teardown env s) =
       calls s @ [Sleep] @ bs @ [EndCollect, ObsStop]
         @ (if obs_stop_raises env then [] else [AddTimings])
         @ [FileFlush] @ (if flush_raises env \<or> file_closed s then [] else [FileClose])
         @ [SaveMetadata, EmitStopped]"
    unfolding stop_teardown_def save_metadata_def finalize_metadata_def
    by (simp add: calls_close_events_file calls_stop_obs bs(2))
  with bs(1) show ?thesis by blast
qed

section \<open>Teardown\<close>

text \<open>
  The calls of the teardown, for every combination of raising steps: after the grace delay,
  the stops of the backend that the state makes it issue, the end of the metadata
  collection, the stop of the external recorder (and the hand-over of its timings unless
  the stop raised), the flush of the log (and its close unless the flush raised), the
  saving of the metadata, and the stopped signal.
\<close>

lemma teardown_calls:
  "is_recording s \<Longrightarrow>
     \<not> is_recording (stop_recording env s) \<and>
     (\<exists>bs. set bs \<subseteq> {MonitorStop, MouseStop, KeyboardStop} \<and>
        calls (stop_recording env s) =
          calls s @ [Sleep] @ bs @ [EndCollect, ObsStop]
            @ (if obs_stop_raises env then [] else [AddTimings])
            @ [FileFlush] @ (if flush_raises env \<or> file_closed s then [] else [FileClose])
            @ [SaveMetadata, EmitStopped])"
proof -
  assume r: "is_recording s"
  have "file_closed (stop_flip s) = file_closed s" "calls (stop_flip s) = calls s"
    by (simp_all add: stop_flip_def)
  moreover have "\<not> is_recording (stop_recording env s)"
    by (rule stop_recording_flag)
  ultimately show ?thesis
    using calls_stop_teardown [of env "stop_flip s"] r
    by (simp add: stop_recording_def [of env s] del: append.simps)
qed

section \<open>Input while paused\<close>

lemma paused_recorder_simps:
  "paused_recorder = \<lparr>darwin = False, use_fallback = False, thread_handle_error_detected = False,
         is_recording = True, is_paused = True, event_queue = [], events_file = [],
         file_closed = False, mouse_listener = Listener False, keyboard_listener = Listener False,
         macos_monitor = None, calls = []\<rparr>"
  by (simp add: paused_recorder_def recording_recorder_def fresh_simps)

lemma recording_recorder_simps:
  "recording_recorder = \<lparr>darwin = False, use_fallback = False, thread_handle_error_detected = False,
         is_recording = True, is_paused = False, event_queue = [], events_file = [],
         file_closed = False, mouse_listener = Listener False, keyboard_listener = Listener False,
         macos_monitor = None, calls = []\<rparr>"
  by (simp add: recording_recorder_def fresh_simps)

text \<open>
  C2, as stated, fails: a move and a click delivered while the session is paused are not
  enqueued, and the iteration of the writer loop during which they are delivered writes
  nothing to the log.
\<close>

theorem paused_input_counterexample:
  "on_move 7 10 20 paused_recorder = paused_recorder \<and>
   on_click 8 10 20 ''left'' True paused_recorder = paused_recorder \<and>
   event_queue paused_recorder = [] \<and>
   events_file (fst (loop_body (-)
      \<lparr>now = 1, pc = 9, write_raises = False, ops = [Move 7 10 20, Click 8 10 20 ''left'' True]\<rparr>
      (paused_recorder,
       \<lparr>last_sentinel_time = 0, last_file_write_time = 0, events_count = 0\<rparr>))) = []"
  by (simp add: paused_recorder_simps on_move_def on_click_def loop_body_def check_direct_def
      process_queue_def)

text \<open>
  C2, amended. Pausing stops neither the capture backend nor the writer: it leaves the
  recording flag, the listeners, the fallback monitor and the log file as they were. While
  the session is paused every input handler discards what the backend delivers: the
  recorder, and so the queue, is unchanged.
\<close>

theorem paused_input_discarded:
  "(let s' = state_of (pause_recording r ts s) in
      is_recording s' = is_recording s \<and> mouse_listener s' = mouse_listener s \<and>
      keyboard_listener s' = keyboard_listener s \<and> macos_monitor s' = macos_monitor s \<and>
      events_file s' = events_file s \<and> file_closed s' = file_closed s) \<and>
   (is_paused s \<longrightarrow>
      on_move t1 x y s = s \<and> on_click t1 x y b p s = s \<and> on_scroll t1 x y dx dy s = s \<and>
      on_press t1 k s = s \<and> on_release t1 k s = s \<and>
      macos_on_input t1 w x y ob op ty s = s)"
  by (simp add: pause_recording_def Let_def do_call_def put_def on_move_def on_click_def
      on_scroll_def on_press_def on_release_def macos_on_input_def)

theorem paused_input_discarded_witness:
  "is_paused paused_recorder \<and>
   on_scroll 3 1 2 0 (-1) paused_recorder = paused_recorder \<and>
   on_press 4 (Key ''shift'') paused_recorder = paused_recorder \<and>
   macos_on_input 5 6 10 20 None None ''move'' paused_recorder = paused_recorder"
  using paused_input_discarded [of True 0 paused_recorder 3 1 2 "''left''" True 0 "-1" "Key ''shift''" 6 None None "''move''"]
    paused_input_discarded [of True 0 paused_recorder 4 10 20 "''left''" True 0 "-1" "Key ''shift''" 6 None None "''move''"]
    paused_input_discarded [of True 0 paused_recorder 5 10 20 "''left''" True 0 "-1" "Key ''shift''" 6 None None "''move''"]
  by (simp add: paused_recorder_simps)

section \<open>Pause and resume when the client fails\<close>

text \<open>
  C3 at the failing input: the session is recording, the queue is empty, and the client's
  pause and resume both raise. Each method leaves with the client's error after the flag was
  changed and the client was called; neither a \<open>pause\<close> nor a \<open>resume\<close> event is enqueued.
\<close>

theorem pause_resume_client_failure:
  "pause_recording True 5 recording_recorder =
     Raised OBSError (recording_recorder\<lparr>is_paused := True, calls := [ObsPause]\<rparr>) \<and>
   resume_recording True 6 (state_of (pause_recording True 5 recording_recorder)) =
     Raised OBSError (recording_recorder\<lparr>calls := [ObsPause, ObsResume]\<rparr>) \<and>
   event_queue (state_of (resume_recording True 6
       (state_of (pause_recording True 5 recording_recorder)))) = []"
  by (simp add: recording_recorder_simps pause_recording_def resume_recording_def Let_def
      do_call_def)

lemma pause_resume_ok:
  "\<not> is_paused s \<Longrightarrow> is_recording s \<Longrightarrow>
   event_queue (state_of (resume_recording False t2 (state_of (pause_recording False t1 s))))
     = event_queue s @ [mk_event t1 ''pause'' [], mk_event t2 ''resume'' []]"
  by (simp add: pause_recording_def resume_recording_def Let_def do_call_def put_def)

section \<open>The writer loop keeps the order of the queue\<close>

lemma queued_mk_event [simp]: "queued (mk_event ts a xs) = (a \<noteq> ''direct_sentinel'')"
  by (simp add: queued_def mk_event_def)

lemma put_fields [simp]:
  "event_queue (put e s) = event_queue s @ [e]" "events_file (put e s) = events_file s"
  "file_closed (put e s) = file_closed s" "is_recording (put e s) = is_recording s"
  by (simp_all add: put_def)

lemma do_call_fields [simp]:
  "event_queue (do_call c s) = event_queue s" "events_file (do_call c s) = events_file s"
  by (simp_all add: do_call_def)

lemma stop_listeners_log [simp]:
  "events_file (stop_listeners env s) = events_file s"
  "event_queue (stop_listeners env s) = event_queue s"
proof -
  have k: "\<And>s. events_file (stop_keyboard env s) = events_file s \<and>
                event_queue (stop_keyboard env s) = event_queue s"
    by (simp add: stop_keyboard_def Let_def)
  have m: "\<And>s. events_file (stop_monitor s) = events_file s \<and>
                event_queue (stop_monitor s) = event_queue s"
    by (simp add: stop_monitor_def split: option.splits)
  show "events_file (stop_listeners env s) = events_file s"
    and "event_queue (stop_listeners env s) = event_queue s"
    by (simp_all add: stop_listeners_def Let_def k m)
qed

lemma stop_teardown_log [simp]:
  "events_file (stop_teardown env s) = events_file s"
  "event_queue (stop_teardown env s) = event_queue s"
  by (simp_all add: stop_teardown_def save_metadata_def close_events_file_def stop_obs_def
      finalize_metadata_def Let_def)

lemma apply_op_appends:
  "\<exists>es. event_queue (apply_op x s) = event_queue s @ es \<and>
        (op_ok x \<longrightarrow> list_all queued es) \<and>
        events_file (apply_op x s) = events_file s \<and>
        (no_teardown x \<longrightarrow> file_closed (apply_op x s) = file_closed s)"
proof (cases x)
  case (Move ts a b)
  then show ?thesis by (simp add: on_move_def)
next
  case (Click ts a b bt p)
  then show ?thesis by (simp add: on_click_def)
next
  case (Scroll ts a b dx dy)
  then show ?thesis by (simp add: on_scroll_def)
next
  case (Press ts k)
  then show ?thesis by (simp add: on_press_def split: sum.splits)
next
  case (Release ts k)
  then show ?thesis by (simp add: on_release_def split: sum.splits)
next
  case (MacInput ts w a b bt p ty)
  then show ?thesis by (simp add: macos_on_input_def)
next
  case (Pause r ts)
  then show ?thesis by (simp add: pause_recording_def Let_def)
next
  case (Resume r ts)
  then show ?thesis by (simp add: resume_recording_def Let_def)
next
  case StopFlag
  then show ?thesis by (simp add: stop_flip_def)
next
  case (Teardown env)
  then show ?thesis by simp
qed

lemma apply_ops_appends:
  "list_all op_ok xs \<Longrightarrow>
   \<exists>es. event_queue (apply_ops xs s) = event_queue s @ es \<and> list_all queued es \<and>
        events_file (apply_ops xs s) = events_file s \<and>
        (list_all no_teardown xs \<longrightarrow> file_closed (apply_ops xs s) = file_closed s)"
proof (induction xs arbitrary: s)
  case Nil
  then show ?case by simp
next
  case (Cons x xs)
  from Cons.prems have ok: "op_ok x" "list_all op_ok xs" by simp_all
  obtain es where es: "event_queue (apply_op x s) = event_queue s @ es" "list_all queued es"
      "events_file (apply_op x s) = events_file s"
      "no_teardown x \<longrightarrow> file_closed (apply_op x s) = file_closed s"
    using apply_op_appends [of x s] ok(1) by blast
  obtain fs where fs: "event_queue (apply_ops xs (apply_op x s)) = event_queue (apply_op x s) @ fs"
      "list_all queued fs" "events_file (apply_ops xs (apply_op x s)) = events_file (apply_op x s)"
      "list_all no_teardown xs \<longrightarrow>
         file_closed (apply_ops xs (apply_op x s)) = file_closed (apply_op x s)"
    using Cons.IH [OF ok(2), of "apply_op x s"] by blast
  have "event_queue (apply_ops (x # xs) s) = event_queue s @ (es @ fs)"
    using es(1) fs(1) by simp
  moreover have "list_all queued (es @ fs)" using es(2) fs(2) by simp
  moreover have "list_all no_teardown (x # xs) \<longrightarrow>
      file_closed (apply_ops (x # xs) s) = file_closed s"
    using es(4) fs(4) by simp
  ultimately show ?case using es(3) fs(3) by (intro exI [of _ "es @ fs"]) simp
qed

lemma apply_ops_file:
  "events_file (apply_ops xs s) = events_file s \<and>
   (list_all no_teardown xs \<longrightarrow> file_closed (apply_ops xs s) = file_closed s)"
proof (induction xs arbitrary: s)
  case Nil
  then show ?case by simp
next
  case (Cons x xs)
  from apply_op_appends [of x s]
  have "events_file (apply_op x s) = events_file s"
    "no_teardown x \<longrightarrow> file_closed (apply_op x s) = file_closed s"
    by blast+
  with Cons.IH [of "apply_op x s"] show ?case by simp
qed

subsection \<open>Steps that keep the invariant\<close>

lemma fifo_inv_start:
  "list_all queued (event_queue s) \<Longrightarrow>
   fifo_inv (filter queued (events_file s)) (event_queue s) (\<not> file_closed s) s"
  unfolding fifo_inv_def by (intro exI [of _ "[]"] exI [of _ "0::nat"]) simp

lemma fifo_inv_enqueue:
  assumes inv: "fifo_inv f0 q0 c s"
    and log: "events_file s1 = events_file s"
    and queue: "event_queue s1 = event_queue s @ es"
    and es: "list_all queued es"
    and c': "c' \<longrightarrow> c \<and> \<not> file_closed s1"
  shows "fifo_inv f0 q0 c' s1"
proof -
  from inv obtain new w k where h: "k \<le> length (q0 @ new)" "list_all queued (q0 @ new)"
      "filter queued (events_file s) = f0 @ w" "subseq w (take k (q0 @ new))"
      "event_queue s = drop k (q0 @ new)" "c \<longrightarrow> w = take k (q0 @ new) \<and> \<not> file_closed s"
    unfolding fifo_inv_def by blast
  have t: "take k (q0 @ (new @ es)) = take k (q0 @ new)"
    and d: "drop k (q0 @ (new @ es)) = drop k (q0 @ new) @ es"
    using h(1) by simp_all
  have "k \<le> length (q0 @ (new @ es))" using h(1) by simp
  moreover have "list_all queued (q0 @ (new @ es))" using h(2) es by simp
  moreover have "filter queued (events_file s1) = f0 @ w" using h(3) log by simp
  moreover have "subseq w (take k (q0 @ (new @ es)))" using h(4) by (simp only: t)
  moreover have "event_queue s1 = drop k (q0 @ (new @ es))" using h(5) queue by (simp only: d)
  moreover have "c' \<longrightarrow> w = take k (q0 @ (new @ es)) \<and> \<not> file_closed s1"
    unfolding t using h(6) c' by blast
  ultimately show ?thesis unfolding fifo_inv_def by blast
qed

lemma fifo_inv_direct:
  assumes inv: "fifo_inv f0 q0 c s"
    and log: "events_file s1 = events_file s @ [d]" and d: "\<not> queued d"
    and queue: "event_queue s1 = event_queue s"
    and c': "c' \<longrightarrow> c \<and> \<not> file_closed s1"
  shows "fifo_inv f0 q0 c' s1"
proof -
  from inv obtain new w k where h: "k \<le> length (q0 @ new)" "list_all queued (q0 @ new)"
      "filter queued (events_file s) = f0 @ w" "subseq w (take k (q0 @ new))"
      "event_queue s = drop k (q0 @ new)" "c \<longrightarrow> w = take k (q0 @ new) \<and> \<not> file_closed s"
    unfolding fifo_inv_def by blast
  have "filter queued (events_file s1) = f0 @ w" using h(3) log d by simp
  moreover have "event_queue s1 = drop k (q0 @ new)" using h(5) queue by simp
  moreover have "c' \<longrightarrow> w = take k (q0 @ new) \<and> \<not> file_closed s1" using h(6) c' by simp
  ultimately show ?thesis unfolding fifo_inv_def using h(1,2,4) by blast
qed

lemma drop_Cons_next:
  assumes "drop k xs = e # q"
  shows "k < length xs" and "take (Suc k) xs = take k xs @ [e]" and "drop (Suc k) xs = q"
    and "e \<in> set xs"
proof -
  show k: "k < length xs" using assms by (cases "k < length xs") simp_all
  from Cons_nth_drop_Suc [OF k] assms have n: "xs ! k = e" and "drop (Suc k) xs = q" by simp_all
  then show "drop (Suc k) xs = q" by simp
  from take_Suc_conv_app_nth [OF k] n show "take (Suc k) xs = take k xs @ [e]" by simp
  from n k show "e \<in> set xs" by auto
qed

lemma fifo_inv_written:
  assumes inv: "fifo_inv f0 q0 c s"
    and head: "event_queue s = e # q"
    and log: "events_file s1 = events_file s @ [e]"
    and queue: "event_queue s1 = q"
    and c': "c' \<longrightarrow> c \<and> \<not> file_closed s1"
  shows "fifo_inv f0 q0 c' s1"
proof -
  from inv obtain new w k where h: "k \<le> length (q0 @ new)" "list_all queued (q0 @ new)"
      "filter queued (events_file s) = f0 @ w" "subseq w (take k (q0 @ new))"
      "event_queue s = drop k (q0 @ new)" "c \<longrightarrow> w = take k (q0 @ new) \<and> \<not> file_closed s"
    unfolding fifo_inv_def by blast
  from h(5) head have dr: "drop k (q0 @ new) = e # q" by simp
  note n = drop_Cons_next [OF dr]
  from n(4) h(2) have qe: "queued e" by (simp add: list_all_iff)
  have "Suc k \<le> length (q0 @ new)" using n(1) by simp
  moreover have "filter queued (events_file s1) = f0 @ (w @ [e])" using h(3) log qe by simp
  moreover have "subseq (w @ [e]) (take (Suc k) (q0 @ new))"
    unfolding n(2) using h(4) by (intro list_emb_append_mono) simp_all
  moreover have "event_queue s1 = drop (Suc k) (q0 @ new)" using queue n(3) by simp
  moreover have "c' \<longrightarrow> w @ [e] = take (Suc k) (q0 @ new) \<and> \<not> file_closed s1"
    using h(6) c' n(2) by simp
  ultimately show ?thesis unfolding fifo_inv_def using h(2) by blast
qed

lemma fifo_inv_lost:
  assumes inv: "fifo_inv f0 q0 c s"
    and head: "event_queue s = e # q"
    and log: "events_file s1 = events_file s"
    and queue: "event_queue s1 = q"
  shows "fifo_inv f0 q0 False s1"
proof -
  from inv obtain new w k where h: "k \<le> length (q0 @ new)" "list_all queued (q0 @ new)"
      "filter queued (events_file s) = f0 @ w" "subseq w (take k (q0 @ new))"
      "event_queue s = drop k (q0 @ new)"
    unfolding fifo_inv_def by blast
  from h(5) head have dr: "drop k (q0 @ new) = e # q" by simp
  note n = drop_Cons_next [OF dr]
  have "Suc k \<le> length (q0 @ new)" using n(1) by simp
  moreover have "filter queued (events_file s1) = f0 @ w" using h(3) log by simp
  moreover have "subseq w (take (Suc k) (q0 @ new))"
    unfolding n(2) using h(4) by (rule list_emb_prefix)
  moreover have "event_queue s1 = drop (Suc k) (q0 @ new)" using queue n(3) by simp
  ultimately show ?thesis unfolding fifo_inv_def using h(2) by blast
qed

lemma fifo_inv_weaken: "fifo_inv f0 q0 c s \<Longrightarrow> (c' \<longrightarrow> c) \<Longrightarrow> fifo_inv f0 q0 c' s"
  unfolding fifo_inv_def by blast

lemma fifo_inv_open: "fifo_inv f0 q0 True s \<Longrightarrow> \<not> file_closed s"
  unfolding fifo_inv_def by blast

subsection \<open>One iteration\<close>

lemma check_direct_cases:
  obtains (failed) "check_direct fsub t (s, v) = None" "file_closed s \<or> write_raises t"
    | (idle) "check_direct fsub t (s, v) = Some (s, v)" "\<not> fsub (now t) (last_file_write_time v) > 5"
    | (wrote) "check_direct fsub t (s, v) =
         Some (s\<lparr>events_file := events_file s @ [direct_sentinel t]\<rparr>,
               v\<lparr>last_file_write_time := now t\<rparr>)"
        "fsub (now t) (last_file_write_time v) > 5" "\<not> file_closed s" "\<not> write_raises t"
  by (cases "fsub (now t) (last_file_write_time v) > 5"; cases "file_closed s \<or> write_raises t")
    (auto simp: check_direct_def write_line_def)

lemma direct_sentinel_not_queued [simp]: "\<not> queued (direct_sentinel t)"
  by (simp add: direct_sentinel_def)

lemma sentinel_event_queued [simp]: "queued (sentinel_event t)"
  by (simp add: sentinel_event_def)

lemma process_queue_empty:
  "event_queue s = [] \<Longrightarrow>
   process_queue fsub t (s, v) =
     (if fsub (now t) (last_sentinel_time v) > 2
      then (put (sentinel_event t) s, v\<lparr>last_sentinel_time := now t\<rparr>) else (s, v))"
  by (simp add: process_queue_def)

lemma process_queue_head:
  "event_queue s = e # q \<Longrightarrow>
   process_queue fsub t (s, v) =
     (if file_closed s \<or> write_raises t then (s\<lparr>event_queue := q\<rparr>, v)
      else (s\<lparr>event_queue := q, events_file := events_file s @ [e]\<rparr>,
            v\<lparr>events_count := Suc (events_count v), last_file_write_time := now t\<rparr>))"
  by (simp add: process_queue_def write_line_def)

lemma process_queue_fifo:
  assumes inv: "fifo_inv f0 q0 c s"
    and c': "c' \<longrightarrow> c \<and> \<not> write_raises t"
  shows "fifo_inv f0 q0 c' (fst (process_queue fsub t (s, v)))"
proof (cases "event_queue s")
  case Nil
  show ?thesis
  proof (cases "fsub (now t) (last_sentinel_time v) > 2")
    case True
    have "fifo_inv f0 q0 c' (put (sentinel_event t) s)"
    proof (rule fifo_inv_enqueue [OF inv, of _ "[sentinel_event t]"])
      show "c' \<longrightarrow> c \<and> \<not> file_closed (put (sentinel_event t) s)"
        using c' inv unfolding fifo_inv_def by auto
    qed simp_all
    with Nil True show ?thesis by (simp add: process_queue_empty)
  next
    case False
    with Nil fifo_inv_weaken [OF inv, of c'] c' show ?thesis
      by (simp add: process_queue_empty)
  qed
next
  case (Cons e q)
  show ?thesis
  proof (cases "file_closed s \<or> write_raises t")
    case True
    have n: "c' = False" using True c' inv unfolding fifo_inv_def by auto
    have "fifo_inv f0 q0 False (s\<lparr>event_queue := q\<rparr>)"
      by (rule fifo_inv_lost [OF inv Cons]) simp_all
    then show ?thesis unfolding n using Cons True by (simp add: process_queue_head)
  next
    case False
    have "fifo_inv f0 q0 c' (s\<lparr>event_queue := q, events_file := events_file s @ [e]\<rparr>)"
    proof (rule fifo_inv_written [OF inv Cons])
      show "c' \<longrightarrow> c \<and> \<not> file_closed (s\<lparr>event_queue := q, events_file := events_file s @ [e]\<rparr>)"
        using c' False by simp
    qed simp_all
    with Cons False show ?thesis by (simp add: process_queue_head)
  qed
qed

lemma apply_ops_fifo:
  assumes inv: "fifo_inv f0 q0 c s" and ok: "list_all op_ok xs"
    and c': "c' \<longrightarrow> c \<and> list_all no_teardown xs"
  shows "fifo_inv f0 q0 c' (apply_ops xs s)"
proof -
  obtain es where es: "event_queue (apply_ops xs s) = event_queue s @ es" "list_all queued es"
      "events_file (apply_ops xs s) = events_file s"
      "list_all no_teardown xs \<longrightarrow> file_closed (apply_ops xs s) = file_closed s"
    using apply_ops_appends [OF ok, of s] by blast
  show ?thesis
  proof (rule fifo_inv_enqueue [OF inv es(3) es(1) es(2)])
    show "c' \<longrightarrow> c \<and> \<not> file_closed (apply_ops xs s)"
      using c' es(4) inv unfolding fifo_inv_def by auto
  qed
qed

lemma loop_body_fifo:
  assumes inv: "fifo_inv f0 q0 c s" and ok: "list_all op_ok (ops t)"
  shows "fifo_inv f0 q0 (c \<and> clean t) (fst (loop_body fsub t (s, v)))"
proof (cases rule: check_direct_cases [of fsub t s v])
  case failed
  have n: "(c \<and> clean t) = False"
    using failed(2) inv unfolding fifo_inv_def clean_def by auto
  have "fifo_inv f0 q0 False (apply_ops (ops t) s)"
    by (rule apply_ops_fifo [OF inv ok]) simp
  then show ?thesis unfolding n using failed(1) by (simp add: loop_body_def)
next
  case idle
  have a: "fifo_inv f0 q0 (c \<and> clean t) (apply_ops (ops t) s)"
    by (rule apply_ops_fifo [OF inv ok]) (simp add: clean_def)
  have "fifo_inv f0 q0 (c \<and> clean t)
          (fst (process_queue fsub t (apply_ops (ops t) s, v)))"
    by (rule process_queue_fifo [OF a]) (simp add: clean_def)
  with idle(1) show ?thesis by (simp add: loop_body_def)
next
  case wrote
  let ?s1 = "s\<lparr>events_file := events_file s @ [direct_sentinel t]\<rparr>"
  let ?v1 = "v\<lparr>last_file_write_time := now t\<rparr>"
  have a: "fifo_inv f0 q0 c ?s1"
    by (rule fifo_inv_direct [OF inv, of _ "direct_sentinel t"]) (simp_all add: wrote(3))
  have b: "fifo_inv f0 q0 (c \<and> clean t) (apply_ops (ops t) ?s1)"
    by (rule apply_ops_fifo [OF a ok]) (simp add: clean_def)
  have "fifo_inv f0 q0 (c \<and> clean t)
          (fst (process_queue fsub t (apply_ops (ops t) ?s1, ?v1)))"
    by (rule process_queue_fifo [OF b]) (simp add: clean_def)
  with wrote(1) show ?thesis by (simp add: loop_body_def)
qed

lemma run_ticks_fifo:
  "fifo_inv f0 q0 c s \<Longrightarrow> list_all (\<lambda>t. list_all op_ok (ops t)) ts \<Longrightarrow>
   \<exists>c'. (c \<and> list_all clean ts \<longrightarrow> c') \<and> fifo_inv f0 q0 c' (fst (run_ticks fsub ts (s, v)))"
proof (induction ts arbitrary: s v c)
  case Nil
  then show ?case by auto
next
  case (Cons t ts)
  show ?case
  proof (cases "is_recording s")
    case False
    with Cons.prems(1) show ?thesis by auto
  next
    case True
    obtain s1 v1 where b: "loop_body fsub t (s, v) = (s1, v1)"
      by (cases "loop_body fsub t (s, v)")
    from Cons.prems(2) have okt: "list_all op_ok (ops t)"
      and okts: "list_all (\<lambda>t. list_all op_ok (ops t)) ts" by simp_all
    from loop_body_fifo [OF Cons.prems(1) okt, of fsub v] b
    have i1: "fifo_inv f0 q0 (c \<and> clean t) s1" by simp
    from Cons.IH [OF i1 okts, of v1] obtain c' where
      c': "(c \<and> clean t) \<and> list_all clean ts \<longrightarrow> c'"
        "fifo_inv f0 q0 c' (fst (run_ticks fsub ts (s1, v1)))" by blast
    from True b have r: "run_ticks fsub (t # ts) (s, v) = run_ticks fsub ts (s1, v1)" by simp
    from c' show ?thesis unfolding r by auto
  qed
qed

subsection \<open>The log only grows\<close>

lemma process_queue_prefix:
  "prefix (events_file s) (events_file (fst (process_queue fsub t (s, v))))"
  by (cases "event_queue s") (simp_all add: process_queue_empty process_queue_head)

lemma loop_body_prefix:
  "prefix (events_file s) (events_file (fst (loop_body fsub t (s, v))))"
proof (cases rule: check_direct_cases [of fsub t s v])
  case failed
  then show ?thesis by (simp add: loop_body_def apply_ops_file)
next
  case idle
  from process_queue_prefix [of "apply_ops (ops t) s" fsub t v] idle(1)
  show ?thesis by (simp add: loop_body_def apply_ops_file)
next
  case wrote
  let ?s1 = "s\<lparr>events_file := events_file s @ [direct_sentinel t]\<rparr>"
  let ?v1 = "v\<lparr>last_file_write_time := now t\<rparr>"
  have "prefix (events_file s) (events_file (apply_ops (ops t) ?s1))"
    by (simp add: apply_ops_file)
  with process_queue_prefix [of "apply_ops (ops t) ?s1" fsub t ?v1]
  have "prefix (events_file s)
          (events_file (fst (process_queue fsub t (apply_ops (ops t) ?s1, ?v1))))"
    by (rule prefix_order.order_trans [rotated])
  with wrote(1) show ?thesis by (simp add: loop_body_def)
qed

lemma run_ticks_prefix:
  "prefix (events_file s) (events_file (fst (run_ticks fsub ts (s, v))))"
proof (induction ts arbitrary: s v)
  case Nil
  then show ?case by simp
next
  case (Cons t ts)
  show ?case
  proof (cases "is_recording s")
    case False
    then show ?thesis by simp
  next
    case True
    obtain s1 v1 where b: "loop_body fsub t (s, v) = (s1, v1)"
      by (cases "loop_body fsub t (s, v)")
    from loop_body_prefix [of s fsub t v] b have "prefix (events_file s) (events_file s1)"
      by simp
    with Cons.IH [of s1 v1] True b show ?thesis
      by (auto intro: prefix_order.order_trans)
  qed
qed

lemma run_loop_ticks:
  "run_loop fsub ts sv =
     (if is_recording (fst (run_ticks fsub ts sv)) then None else Some (run_ticks fsub ts sv))"
proof (induction ts arbitrary: sv)
  case Nil
  then show ?case by (cases sv) simp
next
  case (Cons t ts)
  then show ?case by (cases sv) simp
qed



section \<open>First and last line of the log\<close>

lemma apply_op_flag: "\<not> is_recording s \<Longrightarrow> \<not> is_recording (apply_op x s)"
  by (cases x)
    (simp_all add: on_move_def on_click_def on_scroll_def on_press_def on_release_def
      macos_on_input_def pause_recording_def resume_recording_def)

lemma apply_ops_flag: "\<not> is_recording s \<Longrightarrow> \<not> is_recording (apply_ops xs s)"
  by (induction xs arbitrary: s) (simp_all add: apply_op_flag)

lemma apply_ops_stop: "StopFlag \<in> set xs \<Longrightarrow> \<not> is_recording (apply_ops xs s)"
proof (induction xs arbitrary: s)
  case Nil
  then show ?case by simp
next
  case (Cons x xs)
  show ?case
  proof (cases "x = StopFlag")
    case True
    then have "\<not> is_recording (apply_op x s)" by (simp add: stop_flip_def)
    then show ?thesis by (simp add: apply_ops_flag)
  next
    case False
    with Cons.prems have "StopFlag \<in> set xs" by simp
    then show ?thesis by (simp add: Cons.IH)
  qed
qed

lemma process_queue_flag [simp]:
  "is_recording (fst (process_queue fsub t (s, v))) = is_recording s"
  by (cases "event_queue s") (simp_all add: process_queue_empty process_queue_head)

lemma process_queue_open:
  "file_closed (fst (process_queue fsub t (s, v))) = file_closed s"
  by (cases "event_queue s") (simp_all add: process_queue_empty process_queue_head)

lemma loop_body_grows:
  assumes nc: "\<not> file_closed s" and nt: "list_all no_teardown (ops t)"
  shows "grows s (fst (loop_body fsub t (s, v)))"
proof -
  have "\<not> file_closed (fst (loop_body fsub t (s, v)))"
  proof (cases rule: check_direct_cases [of fsub t s v])
    case failed
    then show ?thesis using nc nt by (simp add: loop_body_def apply_ops_file)
  next
    case idle
    then show ?thesis using nc nt
      by (simp add: loop_body_def process_queue_open apply_ops_file)
  next
    case wrote
    then show ?thesis using nc nt
      by (simp add: loop_body_def process_queue_open apply_ops_file)
  qed
  with loop_body_prefix [of s fsub t v] show ?thesis by (simp add: grows_def)
qed

lemma loop_body_stop:
  assumes "StopFlag \<in> set (ops t)"
  shows "\<not> is_recording (fst (loop_body fsub t (s, v)))"
proof (cases "check_direct fsub t (s, v)")
  case None
  then show ?thesis using assms by (simp add: loop_body_def apply_ops_stop)
next
  case (Some a)
  then show ?thesis using assms by (cases a) (simp add: loop_body_def apply_ops_stop)
qed

lemma run_ticks_stopped: "\<not> is_recording (fst sv) \<Longrightarrow> run_ticks fsub ts sv = sv"
  by (cases ts) simp_all

lemma run_ticks_stop:
  "\<exists>t\<in>set ts. StopFlag \<in> set (ops t) \<Longrightarrow> \<not> is_recording (fst (run_ticks fsub ts sv))"
proof (induction ts arbitrary: sv)
  case Nil
  then show ?case by simp
next
  case (Cons t ts)
  obtain s v where sv: "sv = (s, v)" by (cases sv)
  show ?case
  proof (cases "is_recording s")
    case False
    then show ?thesis by (simp add: sv)
  next
    case True
    show ?thesis
    proof (cases "StopFlag \<in> set (ops t)")
      case True
      then have n: "\<not> is_recording (fst (loop_body fsub t (s, v)))" by (rule loop_body_stop)
      then have "run_ticks fsub ts (loop_body fsub t (s, v)) = loop_body fsub t (s, v)"
        by (rule run_ticks_stopped)
      with n \<open>is_recording s\<close> show ?thesis by (simp add: sv)
    next
      case False
      with Cons.prems have "\<exists>t\<in>set ts. StopFlag \<in> set (ops t)" by simp
      from Cons.IH [OF this, of "loop_body fsub t (s, v)"] \<open>is_recording s\<close> show ?thesis
        by (simp add: sv)
    qed
  qed
qed

lemma grows_refl: "\<not> file_closed s \<Longrightarrow> grows s s"
  by (simp add: grows_def)

lemma grows_trans: "grows a b \<Longrightarrow> grows b c \<Longrightarrow> grows a c"
  unfolding grows_def by (metis prefix_order.order_trans)

lemma run_ticks_grows:
  "\<not> file_closed s \<Longrightarrow> list_all (\<lambda>t. list_all no_teardown (ops t)) ts \<Longrightarrow>
   grows s (fst (run_ticks fsub ts (s, v)))"
proof (induction ts arbitrary: s v)
  case Nil
  then show ?case by (simp add: grows_refl)
next
  case (Cons t ts)
  show ?case
  proof (cases "is_recording s")
    case False
    with Cons.prems show ?thesis by (simp add: grows_refl)
  next
    case True
    obtain s1 v1 where b: "loop_body fsub t (s, v) = (s1, v1)"
      by (cases "loop_body fsub t (s, v)")
    from Cons.prems(2) have nt: "list_all no_teardown (ops t)"
      and nts: "list_all (\<lambda>t. list_all no_teardown (ops t)) ts" by simp_all
    from loop_body_grows [OF Cons.prems(1) nt, of fsub v] b have g1: "grows s s1" by simp
    then have "\<not> file_closed s1" by (simp add: grows_def)
    from grows_trans [OF g1 Cons.IH [OF this nts, of v1]] True b show ?thesis by simp
  qed
qed

lemma write_or_raise_open:
  "\<not> file_closed s \<Longrightarrow> write_or_raise e s = Returned (s\<lparr>events_file := events_file s @ [e]\<rparr>)"
  by (simp add: write_or_raise_def write_line_def)

lemma grows_write: "\<not> file_closed s \<Longrightarrow> grows s (state_of (write_or_raise e s))"
  by (simp add: write_or_raise_open grows_def)

lemma grows_monitor_start: "\<not> file_closed s \<Longrightarrow> grows s (state_of (monitor_start env m s))"
  by (simp add: monitor_start_def Let_def do_call_def grows_def)

lemma grows_handle_start_error:
  assumes "\<not> file_closed s"
  shows "grows s (state_of (fst (handle_start_error env out s)))"
proof (cases out)
  case (Started r)
  then show ?thesis using assms by (simp add: handle_start_error_def grows_refl)
next
  case (ThreadHandleError msg)
  show ?thesis
  proof (cases "darwin s \<and> macos_monitor s = None")
    case False
    then show ?thesis using assms ThreadHandleError
      by (auto simp: handle_start_error_def grows_refl)
  next
    case True
    have g: "grows s (state_of (monitor_start env new_monitor s))"
      using assms by (rule grows_monitor_start)
    show ?thesis
    proof (cases "monitor_start env new_monitor s")
      case (Raised e s1)
      with g True ThreadHandleError show ?thesis by (simp add: handle_start_error_def)
    next
      case (Returned s1)
      with g have g1: "grows s s1" by simp
      then have "\<not> file_closed s1" by (simp add: grows_def)
      from grows_trans [OF g1 grows_write [OF this]] True ThreadHandleError Returned
      show ?thesis by (simp add: handle_start_error_def)
    qed
  qed
next
  case OtherTypeError
  then show ?thesis using assms by (simp add: handle_start_error_def grows_refl)
next
  case OtherException
  then show ?thesis using assms by (simp add: handle_start_error_def grows_refl)
qed

lemma grows_start_pynput:
  assumes nc: "\<not> file_closed s"
  shows "grows s (state_of (fst (start_pynput env s)))"
proof -
  let ?s1 = "do_call MouseStart s"
  have g1: "grows s ?s1" using nc by (simp add: grows_def do_call_def)
  then have nc1: "\<not> file_closed ?s1" by (simp add: grows_def)
  show ?thesis
  proof (cases "mouse_start env")
    case (Started mr)
    let ?s2 = "do_call KeyboardStart (?s1\<lparr>mouse_listener := Listener mr\<rparr>)"
    have g2: "grows s ?s2" using nc by (simp add: grows_def do_call_def)
    then have nc2: "\<not> file_closed ?s2" by (simp add: grows_def)
    show ?thesis
    proof (cases "keyboard_start env")
      case (Started kr)
      let ?s3 = "?s2\<lparr>keyboard_listener := Listener kr\<rparr>"
      have g3: "grows s ?s3" using nc by (simp add: grows_def do_call_def)
      then have "\<not> file_closed ?s3" by (simp add: grows_def)
      from grows_trans [OF g3 grows_write [OF this]] Started \<open>mouse_start env = Started mr\<close>
      show ?thesis by (simp add: start_pynput_def Let_def)
    next
      case (ThreadHandleError msg)
      with grows_trans [OF g2 grows_handle_start_error [OF nc2]] \<open>mouse_start env = Started mr\<close>
      show ?thesis by (simp add: start_pynput_def Let_def)
    next
      case OtherTypeError
      with grows_trans [OF g2 grows_handle_start_error [OF nc2]] \<open>mouse_start env = Started mr\<close>
      show ?thesis by (simp add: start_pynput_def Let_def)
    next
      case OtherException
      with grows_trans [OF g2 grows_handle_start_error [OF nc2]] \<open>mouse_start env = Started mr\<close>
      show ?thesis by (simp add: start_pynput_def Let_def)
    qed
  next
    case (ThreadHandleError msg)
    with grows_trans [OF g1 grows_handle_start_error [OF nc1]]
    show ?thesis by (simp add: start_pynput_def Let_def)
  next
    case OtherTypeError
    with grows_trans [OF g1 grows_handle_start_error [OF nc1]]
    show ?thesis by (simp add: start_pynput_def Let_def)
  next
    case OtherException
    with grows_trans [OF g1 grows_handle_start_error [OF nc1]]
    show ?thesis by (simp add: start_pynput_def Let_def)
  qed
qed

lemma grows_start_listeners:
  assumes nc: "\<not> file_closed s"
  shows "grows s (state_of (fst (start_listeners env meth s)))"
proof -
  consider (fb) "prefix ''macOS_fallback'' meth"
    | (py) "\<not> prefix ''macOS_fallback'' meth" "meth = ''pynput_listeners''"
    | (no) "\<not> prefix ''macOS_fallback'' meth" "meth \<noteq> ''pynput_listeners''"
    by blast
  then show ?thesis
  proof cases
    case fb
    show ?thesis
    proof (cases "macos_monitor s")
      case None
      with fb nc show ?thesis by (simp add: start_listeners_def grows_refl)
    next
      case (Some m)
      have g: "grows s (state_of (monitor_start env m s))"
        using nc by (rule grows_monitor_start)
      show ?thesis
      proof (cases "monitor_start env m s")
        case (Raised e s1)
        with g fb Some show ?thesis by (simp add: start_listeners_def)
      next
        case (Returned s1)
        with g have g1: "grows s s1" by simp
        then have "\<not> file_closed s1" by (simp add: grows_def)
        from grows_trans [OF g1 grows_write [OF this]] fb Some Returned
        show ?thesis by (simp add: start_listeners_def)
      qed
    qed
  next
    case py
    with grows_start_pynput [OF nc] show ?thesis by (simp add: start_listeners_def)
  next
    case no
    with grows_write [OF nc] show ?thesis by (simp add: start_listeners_def)
  qed
qed

lemma try_block_returns:
  assumes nc: "\<not> file_closed s" and st: "\<exists>t\<in>set (ticks env). StopFlag \<in> set (ops t)"
    and nt0: "list_all no_teardown (startup_ops env)"
    and nt: "list_all (\<lambda>t. list_all no_teardown (ops t)) (ticks env)"
  shows "\<exists>s'. try_block env meth s = Some s' \<and> grows s s'"
proof -
  obtain out lw where sl: "start_listeners env meth s = (out, lw)"
    by (cases "start_listeners env meth s")
  from grows_start_listeners [OF nc, of env meth] sl
  have g: "grows s (state_of out)" by simp
  show ?thesis
  proof (cases out)
    case (Raised e s1)
    with g sl show ?thesis by (simp add: try_block_def)
  next
    case (Returned s1)
    with g have g1: "grows s s1" by simp
    then have nc1: "\<not> file_closed s1" by (simp add: grows_def)
    let ?hb = "mk_event (pc_heartbeat env) ''heartbeat''
                 [(''message'', JStr ''Recording active''), (''capture_method'', JStr meth),
                  (''listeners_working'', JBool lw)]"
    let ?s2 = "s1\<lparr>events_file := events_file s1 @ [?hb]\<rparr>"
    let ?s3 = "apply_ops (startup_ops env) ?s2"
    let ?v = "\<lparr>last_sentinel_time = time_sentinel0 env, last_file_write_time = time_write0 env,
               events_count = 0\<rparr>"
    have w: "write_line False ?hb s1 = Some ?s2" using nc1 by (simp add: write_line_def)
    have g2: "grows s1 ?s2" using nc1 by (simp add: grows_def)
    have g3: "grows ?s2 ?s3" using apply_ops_file [of "startup_ops env" ?s2] nc1 nt0
      by (simp add: grows_def)
    then have nc3: "\<not> file_closed ?s3" by (simp add: grows_def)
    have g4: "grows ?s3 (fst (run_ticks (float_sub env) (ticks env) (?s3, ?v)))"
      by (rule run_ticks_grows [OF nc3 nt])
    have "run_loop (float_sub env) (ticks env) (?s3, ?v)
            = Some (run_ticks (float_sub env) (ticks env) (?s3, ?v))"
      using run_ticks_stop [OF st, of "float_sub env" "(?s3, ?v)"] by (simp add: run_loop_ticks)
    then have "try_block env meth s
                 = Some (fst (run_ticks (float_sub env) (ticks env) (?s3, ?v)))"
      using sl Returned w by (simp add: try_block_def)
    moreover have "grows s (fst (run_ticks (float_sub env) (ticks env) (?s3, ?v)))"
      using g1 g2 g3 g4 grows_trans by blast
    ultimately show ?thesis by blast
  qed
qed




section \<open>Sentinels\<close>

lemma apply_op_log_update:
  "no_teardown x \<Longrightarrow>
   apply_op x (s\<lparr>events_file := f\<rparr>) = (apply_op x s)\<lparr>events_file := f\<rparr>"
proof (cases x)
  case (Move ts a b)
  then show ?thesis by (simp add: on_move_def put_def)
next
  case (Click ts a b bt p)
  then show ?thesis by (simp add: on_click_def put_def)
next
  case (Scroll ts a b dx dy)
  then show ?thesis by (simp add: on_scroll_def put_def)
next
  case (Press ts k)
  then show ?thesis by (simp add: on_press_def put_def split: sum.splits)
next
  case (Release ts k)
  then show ?thesis by (simp add: on_release_def put_def split: sum.splits)
next
  case (MacInput ts w a b bt p ty)
  then show ?thesis by (simp add: macos_on_input_def put_def)
next
  case (Pause r ts)
  then show ?thesis by (simp add: pause_recording_def Let_def put_def do_call_def)
next
  case (Resume r ts)
  then show ?thesis by (simp add: resume_recording_def Let_def put_def do_call_def)
next
  case StopFlag
  then show ?thesis by (simp add: stop_flip_def)
next
  case (Teardown env)
  assume "no_teardown x"
  with Teardown show ?thesis by simp
qed

lemma apply_ops_log_update:
  "list_all no_teardown xs \<Longrightarrow>
   apply_ops xs (s\<lparr>events_file := f\<rparr>) = (apply_ops xs s)\<lparr>events_file := f\<rparr>"
  by (induction xs arbitrary: s) (simp_all add: apply_op_log_update)

text \<open>
  C5, as stated, fails. The loop starts at time 0 with an empty queue, and its iterations
  begin at 0, 0.5, ..., 2.5 seconds (every difference of these readings is exact); nothing
  arrives until a move is delivered during the wait of the iteration that began at 2.5,
  after a silence longer than the window of 2. The loop tests the window only after a wait
  that timed out, against the time at which the iteration began: no sentinel was enqueued,
  and the move is the first line written.
\<close>

theorem sentinel_counterexample:
  "map action (events_file (fst (run_ticks (-) quiet_ticks (recording_recorder, demo_vars)))) = [''move''] \<and>
   event_queue (fst (run_ticks (-) quiet_ticks (recording_recorder, demo_vars))) = []"
  by (simp add: quiet_ticks_def demo_vars_def recording_recorder_simps loop_body_def
      check_direct_def process_queue_def write_line_def on_move_def put_def mk_event_def)

text \<open>
  C5, amended. What one iteration of the writer loop does to the log and the queue, when
  the log is open and the iteration is clean. It tests the two windows once, with the
  subtraction of doubles, against the time read at its top. If more than 5 seconds have
  passed since the last write that the loop recorded, a \<open>direct_sentinel\<close> is written
  straight to the log, ahead of whatever waits in the queue, and that time is the time of
  this iteration, as it is after the write of an event. Then, if an event waits when
  the wait on the queue ends, the first one is written and no sentinel is enqueued; if
  none waits, whatever the other threads did meanwhile, a \<open>sentinel\<close> is enqueued exactly
  when more than 2 seconds have passed since the last sentinel was enqueued (or the loop
  began), and that time is reset. Nothing else is written or enqueued: no bound on the
  silence before a real event follows.
\<close>

theorem sentinel_rules:
  assumes "\<not> file_closed s" and "clean t"
  shows "events_file (fst (loop_body fsub t (s, v))) =
           events_file s
             @ (if fsub (now t) (last_file_write_time v) > 5 then [direct_sentinel t] else [])
             @ take 1 (event_queue (apply_ops (ops t) s)) \<and>
         event_queue (fst (loop_body fsub t (s, v))) =
           (if event_queue (apply_ops (ops t) s) = []
            then (if fsub (now t) (last_sentinel_time v) > 2 then [sentinel_event t] else [])
            else tl (event_queue (apply_ops (ops t) s))) \<and>
         last_sentinel_time (snd (loop_body fsub t (s, v))) =
           (if event_queue (apply_ops (ops t) s) = [] \<and> fsub (now t) (last_sentinel_time v) > 2
            then now t else last_sentinel_time v) \<and>
         last_file_write_time (snd (loop_body fsub t (s, v))) =
           (if event_queue (apply_ops (ops t) s) \<noteq> [] \<or> fsub (now t) (last_file_write_time v) > 5
            then now t else last_file_write_time v)"
proof -
  from assms(2) have wr: "\<not> write_raises t" and nt: "list_all no_teardown (ops t)"
    by (simp_all add: clean_def)
  let ?a = "apply_ops (ops t) s"
  have fa: "events_file ?a = events_file s" "\<not> file_closed ?a"
    using apply_ops_file [of "ops t" s] nt assms(1) by simp_all
  have step: "events_file (fst (process_queue fsub t (?a\<lparr>events_file := f\<rparr>, v1))) =
                f @ take 1 (event_queue ?a) \<and>
              event_queue (fst (process_queue fsub t (?a\<lparr>events_file := f\<rparr>, v1))) =
                (if event_queue ?a = []
                 then (if fsub (now t) (last_sentinel_time v1) > 2 then [sentinel_event t] else [])
                 else tl (event_queue ?a)) \<and>
              last_sentinel_time (snd (process_queue fsub t (?a\<lparr>events_file := f\<rparr>, v1))) =
                (if event_queue ?a = [] \<and> fsub (now t) (last_sentinel_time v1) > 2
                 then now t else last_sentinel_time v1) \<and>
              last_file_write_time (snd (process_queue fsub t (?a\<lparr>events_file := f\<rparr>, v1))) =
                (if event_queue ?a \<noteq> [] then now t else last_file_write_time v1)" for f v1
    using fa(2) wr
    by (cases "event_queue ?a") (simp_all add: process_queue_empty process_queue_head)
  show ?thesis
  proof (cases rule: check_direct_cases [of fsub t s v])
    case failed
    with assms(1) wr show ?thesis by simp
  next
    case idle
    have "?a = ?a\<lparr>events_file := events_file s\<rparr>" using fa(1) by simp
    then have "loop_body fsub t (s, v) = process_queue fsub t (?a\<lparr>events_file := events_file s\<rparr>, v)"
      using idle(1) by (simp add: loop_body_def)
    with step [of "events_file s" v] idle(2) show ?thesis by simp
  next
    case wrote
    let ?f = "events_file s @ [direct_sentinel t]"
    let ?v1 = "v\<lparr>last_file_write_time := now t\<rparr>"
    have "loop_body fsub t (s, v) = process_queue fsub t (?a\<lparr>events_file := ?f\<rparr>, ?v1)"
      using wrote(1) by (simp add: loop_body_def apply_ops_log_update [OF nt])
    with step [of ?f ?v1] wrote(2) show ?thesis by simp
  qed
qed

theorem sentinel_rules_witness:
  "\<not> file_closed recording_recorder \<and> clean late_tick \<and> clean busy_tick \<and>
   events_file (fst (loop_body (-) late_tick (recording_recorder, demo_vars)))
     = [direct_sentinel late_tick] \<and>
   event_queue (fst (loop_body (-) late_tick (recording_recorder, demo_vars)))
     = [sentinel_event late_tick] \<and>
   last_sentinel_time (snd (loop_body (-) late_tick (recording_recorder, demo_vars))) = 6 \<and>
   events_file (fst (loop_body (-) busy_tick (recording_recorder, demo_vars)))
     = [direct_sentinel busy_tick, mk_event (11/2) ''move'' [(''x'', JInt 10), (''y'', JInt 20)]] \<and>
   event_queue (fst (loop_body (-) busy_tick (recording_recorder, demo_vars))) = [] \<and>
   last_sentinel_time (snd (loop_body (-) busy_tick (recording_recorder, demo_vars))) = 0"
proof -
  have h: "\<not> file_closed recording_recorder" "clean late_tick" "clean busy_tick"
    by (simp_all add: recording_recorder_simps late_tick_def busy_tick_def clean_def)
  have q: "event_queue (apply_ops (ops late_tick) recording_recorder) = []"
      "event_queue (apply_ops (ops busy_tick) recording_recorder)
         = [mk_event (11/2) ''move'' [(''x'', JInt 10), (''y'', JInt 20)]]"
      "events_file recording_recorder = []"
    by (simp_all add: late_tick_def busy_tick_def recording_recorder_simps stop_flip_def
        on_move_def put_def)
  have t: "now late_tick = 6" "now busy_tick = 6" "last_file_write_time demo_vars = 0"
      "last_sentinel_time demo_vars = 0"
    by (simp_all add: late_tick_def busy_tick_def demo_vars_def)
  from sentinel_rules [OF h(1) h(2), of "(-)" demo_vars]
    sentinel_rules [OF h(1) h(3), of "(-)" demo_vars] h
  show ?thesis by (simp add: q t)
qed

section \<open>The fallback monitor never gives up sampling\<close>

lemma get_mouse_position_returns: "\<exists>p. get_mouse_position r = Inr p"
proof (cases r)
  case RunRaises
  then show ?thesis by simp
next
  case (Completed rc emp ps)
  then show ?thesis by (simp split: list.splits option.splits)
qed

lemma sample_position_count:
  "macos_monitor s = Some m \<Longrightarrow>
   map_option permission_check_count (macos_monitor (sample_position p m s)) =
     Some (permission_check_count m)"
proof -
  assume m: "macos_monitor s = Some m"
  obtain x y where "get_mouse_position (sample p) = Inr (x, y)"
    using get_mouse_position_returns [of "sample p"] by (cases "get_mouse_position (sample p)") auto
  then show ?thesis using m
    by (simp add: sample_position_def Let_def do_call_def macos_on_input_def put_def)
qed

lemma fallback_recorder_simps:
  "fallback_recorder =
     \<lparr>darwin = True, use_fallback = True, thread_handle_error_detected = False,
      is_recording = True, is_paused = False, event_queue = [], events_file = [],
      file_closed = False, mouse_listener = AttrNone, keyboard_listener = AttrNone,
      macos_monitor = Some \<lparr>mon_running = True, permission_check_count = 0,
                            max_permission_checks = 3, mon_started = True\<rparr>,
      calls = []\<rparr>"
  by (simp add: fallback_recorder_def init_listeners_def init_fields_def initial_flags_def
      check_macos_permissions_def denied_env_def plain_env_def switch_to_fallback_def
      new_monitor_def)

text \<open>
  C6 at the failing input: osascript ends with return code 1 at each of six polls, half a
  second apart. \<open>get_mouse_position\<close> turns every failure into the position (0, 0) and
  raises nothing, so the count of failed checks stays 0, below the limit of 3, and the
  monitor calls osascript at every poll, six times; the sentinel of the last poll is
  enqueued.
\<close>

theorem monitor_keeps_sampling:
  "calls (fst (run_monitor (-) failing_polls (fallback_recorder, 0))) =
     [Osascript, Osascript, Osascript, Osascript, Osascript, Osascript] \<and>
   map_option permission_check_count
     (macos_monitor (fst (run_monitor (-) failing_polls (fallback_recorder, 0)))) = Some 0 \<and>
   map action (event_queue (fst (run_monitor (-) failing_polls (fallback_recorder, 0)))) = [''sentinel'']"
  by (simp add: failing_polls_def failed_poll_def fallback_recorder_simps monitor_iter_def
      sample_position_def do_call_def macos_on_input_def put_def mk_event_def Let_def)

section \<open>Backend selection\<close>

lemma init_fields_base:
  "init_fields env = base_recorder (sys_darwin env) (fst (initial_flags env)) (snd (initial_flags env))"
  by (simp add: init_fields_def base_recorder_def split: prod.splits)

lemma flags_thread_handle:
  "sys_darwin env \<Longrightarrow> smoke_test env = ProbeThreadHandle \<Longrightarrow> initial_flags env = (True, True)"
  by (simp add: initial_flags_def)

lemma flags_darwin:
  "sys_darwin env \<Longrightarrow> smoke_test env \<noteq> ProbeThreadHandle \<Longrightarrow>
   initial_flags env = (\<not> check_macos_permissions env, False)"
  by (cases "smoke_test env") (simp_all add: initial_flags_def)

lemma flags_other: "\<not> sys_darwin env \<Longrightarrow> initial_flags env = (False, False)"
  by (simp add: initial_flags_def)

lemma method_fallback_flags:
  "capture_method (init_listeners env (base_recorder True True thd)) =
     (if thd then ''macOS_fallback_due_to_pynput_error'' else ''macOS_fallback_due_to_permissions'')"
  "macos_monitor (init_listeners env (base_recorder True True thd)) = Some new_monitor"
  by (simp_all add: init_listeners_def base_recorder_def switch_to_fallback_def capture_method_def)

lemma init_listeners_mouse:
  "\<not> (darwin s \<and> (use_fallback s \<or> thread_handle_error_detected s)) \<Longrightarrow>
   mouse_ctor_raises env \<Longrightarrow> init_listeners env s = init_failed s"
  by (auto simp: init_listeners_def)

lemma init_listeners_keyboard:
  "\<not> (darwin s \<and> (use_fallback s \<or> thread_handle_error_detected s)) \<Longrightarrow>
   \<not> mouse_ctor_raises env \<Longrightarrow> keyboard_ctor_raises env \<Longrightarrow>
   init_listeners env s = init_failed (s\<lparr>mouse_listener := Listener False\<rparr>)"
  by (auto simp: init_listeners_def)

lemma init_listeners_test:
  "\<not> (darwin s \<and> (use_fallback s \<or> thread_handle_error_detected s)) \<Longrightarrow>
   \<not> mouse_ctor_raises env \<Longrightarrow> \<not> keyboard_ctor_raises env \<Longrightarrow>
   init_listeners env s =
     (case listener_test env of
        ProbeOk \<Rightarrow> s\<lparr>mouse_listener := Listener False, keyboard_listener := Listener False\<rparr>
      | ProbeThreadHandle \<Rightarrow>
          switch_to_fallback
            (s\<lparr>mouse_listener := Listener False, keyboard_listener := Listener False,
               thread_handle_error_detected := True, use_fallback := True\<rparr>)
      | _ \<Rightarrow> init_failed (s\<lparr>mouse_listener := Listener False, keyboard_listener := Listener False\<rparr>))"
  by (cases "listener_test env") (auto simp: init_listeners_def Let_def)

lemma method_init_failed_darwin:
  "darwin s \<Longrightarrow> \<not> thread_handle_error_detected s \<Longrightarrow>
   capture_method (init_failed s) = ''macOS_fallback_due_to_permissions'' \<and>
   macos_monitor (init_failed s) = Some new_monitor"
  by (simp add: init_failed_def switch_to_fallback_def capture_method_def)

lemma init_failed_other: "\<not> darwin s \<Longrightarrow> init_failed s = s"
  by (simp add: init_failed_def)

lemma method_switch_thread_handle:
  "darwin s \<Longrightarrow> thread_handle_error_detected s \<Longrightarrow>
   capture_method (switch_to_fallback s) = ''macOS_fallback_due_to_pynput_error'' \<and>
   macos_monitor (switch_to_fallback s) = Some new_monitor"
  by (simp add: switch_to_fallback_def capture_method_def)

lemma method_switch_other:
  "\<not> darwin s \<Longrightarrow> capture_method (switch_to_fallback s) = ''none''"
  by (simp add: switch_to_fallback_def capture_method_def)

lemma method_listeners:
  "\<not> (darwin s \<and> (use_fallback s \<or> thread_handle_error_detected s)) \<Longrightarrow>
   capture_method s =
     (if truthy (mouse_listener s) \<and> truthy (keyboard_listener s)
      then ''pynput_listeners'' else ''none'')"
  by (auto simp: capture_method_def)

lemma fallback_names:
  "prefix ''macOS_fallback'' ''macOS_fallback_due_to_pynput_error''"
  "prefix ''macOS_fallback'' ''macOS_fallback_due_to_permissions''"
  "\<not> prefix ''macOS_fallback'' ''pynput_listeners''"
  "\<not> prefix ''macOS_fallback'' ''none''"
  "''macOS_fallback_due_to_pynput_error'' \<noteq> ''pynput_listeners''"
  "''macOS_fallback_due_to_permissions'' \<noteq> ''pynput_listeners''"
  "''none'' \<noteq> ''pynput_listeners''"
  by simp_all

lemma base_fields [simp]:
  "darwin (base_recorder d uf thd) = d" "use_fallback (base_recorder d uf thd) = uf"
  "thread_handle_error_detected (base_recorder d uf thd) = thd"
  "mouse_listener (base_recorder d uf thd) = NoAttr"
  "keyboard_listener (base_recorder d uf thd) = NoAttr"
  by (simp_all add: base_recorder_def)

lemma selection_after_grant:
  fixes env d
  defines "s \<equiv> init_listeners env (base_recorder d False False)"
  defines "ok \<equiv> \<not> mouse_ctor_raises env \<and> \<not> keyboard_ctor_raises env \<and> listener_test env = ProbeOk"
  shows "ok \<Longrightarrow> capture_method s = ''pynput_listeners''"
    and "d \<Longrightarrow> \<not> ok \<Longrightarrow> prefix ''macOS_fallback'' (capture_method s) \<and> macos_monitor s \<noteq> None"
    and "\<not> d \<Longrightarrow> mouse_ctor_raises env \<or> keyboard_ctor_raises env \<or> listener_test env = ProbeThreadHandle
           \<Longrightarrow> capture_method s = ''none''"
    and "\<not> d \<Longrightarrow> \<not> prefix ''macOS_fallback'' (capture_method s)"
proof -
  let ?b = "base_recorder d False False"
  let ?b1 = "?b\<lparr>mouse_listener := Listener False\<rparr>"
  let ?b2 = "?b\<lparr>mouse_listener := Listener False, keyboard_listener := Listener False\<rparr>"
  let ?b3 = "?b\<lparr>mouse_listener := Listener False, keyboard_listener := Listener False,
                 thread_handle_error_detected := True, use_fallback := True\<rparr>"
  have g: "\<not> (darwin ?b \<and> (use_fallback ?b \<or> thread_handle_error_detected ?b))" by simp
  have m_b: "capture_method ?b = ''none''" and m_b1: "capture_method ?b1 = ''none''"
    and m_b2: "capture_method ?b2 = ''pynput_listeners''"
    by (simp_all add: method_listeners)
  have fd: "d \<Longrightarrow> capture_method (init_failed x) = ''macOS_fallback_due_to_permissions'' \<and>
                   macos_monitor (init_failed x) = Some new_monitor"
    if "darwin x = d" "\<not> thread_handle_error_detected x" for x
    using that method_init_failed_darwin [of x] by simp
  have fo: "\<not> d \<Longrightarrow> init_failed x = x" if "darwin x = d" for x
    using that init_failed_other [of x] by simp
  have sw_d: "d \<Longrightarrow> capture_method (switch_to_fallback ?b3) = ''macOS_fallback_due_to_pynput_error'' \<and>
                     macos_monitor (switch_to_fallback ?b3) = Some new_monitor"
    using method_switch_thread_handle [of ?b3] by simp
  have sw_o: "\<not> d \<Longrightarrow> capture_method (switch_to_fallback ?b3) = ''none''"
    using method_switch_other [of ?b3] by simp
  consider (m) "mouse_ctor_raises env"
    | (k) "\<not> mouse_ctor_raises env" "keyboard_ctor_raises env"
    | (ok) "\<not> mouse_ctor_raises env" "\<not> keyboard_ctor_raises env" "listener_test env = ProbeOk"
    | (th) "\<not> mouse_ctor_raises env" "\<not> keyboard_ctor_raises env" "listener_test env = ProbeThreadHandle"
    | (te) "\<not> mouse_ctor_raises env" "\<not> keyboard_ctor_raises env" "listener_test env = ProbeTypeError"
    | (ex) "\<not> mouse_ctor_raises env" "\<not> keyboard_ctor_raises env" "listener_test env = ProbeException"
    by (cases "listener_test env") auto
  then have all: "(ok \<longrightarrow> capture_method s = ''pynput_listeners'') \<and>
      (d \<longrightarrow> \<not> ok \<longrightarrow> prefix ''macOS_fallback'' (capture_method s) \<and> macos_monitor s \<noteq> None) \<and>
      (\<not> d \<longrightarrow> mouse_ctor_raises env \<or> keyboard_ctor_raises env \<or> listener_test env = ProbeThreadHandle
           \<longrightarrow> capture_method s = ''none'') \<and>
      (\<not> d \<longrightarrow> \<not> prefix ''macOS_fallback'' (capture_method s))"
  proof cases
    case m
    then have s: "s = init_failed ?b" unfolding s_def by (rule init_listeners_mouse [OF g])
    have nok: "\<not> ok" using m by (simp add: ok_def)
    show ?thesis
    proof (cases d)
      case True
      with fd [of ?b] nok show ?thesis by (simp add: s fallback_names)
    next
      case False
      with fo [of ?b] nok m_b show ?thesis by (simp add: s fallback_names)
    qed
  next
    case k
    then have s: "s = init_failed ?b1" unfolding s_def by (intro init_listeners_keyboard [OF g])
    have nok: "\<not> ok" using k by (simp add: ok_def)
    show ?thesis
    proof (cases d)
      case True
      with fd [of ?b1] nok show ?thesis by (simp add: s fallback_names)
    next
      case False
      with fo [of ?b1] nok m_b1 show ?thesis by (simp add: s fallback_names)
    qed
  next
    case ok
    then have s: "s = ?b2" unfolding s_def by (simp add: init_listeners_test [OF g])
    from ok have isok: "ok" by (simp add: ok_def)
    show ?thesis
    proof (cases d)
      case True
      with m_b2 isok show ?thesis by (simp add: s fallback_names)
    next
      case False
      with m_b2 isok ok show ?thesis by (simp add: s fallback_names)
    qed
  next
    case th
    then have s: "s = switch_to_fallback ?b3" unfolding s_def by (simp add: init_listeners_test [OF g])
    have nok: "\<not> ok" using th by (simp add: ok_def)
    show ?thesis
    proof (cases d)
      case True
      with sw_d nok show ?thesis by (simp add: s fallback_names)
    next
      case False
      with sw_o nok th show ?thesis by (simp add: s fallback_names)
    qed
  next
    case te
    then have s: "s = init_failed ?b2" unfolding s_def by (simp add: init_listeners_test [OF g])
    have nok: "\<not> ok" using te by (simp add: ok_def)
    show ?thesis
    proof (cases d)
      case True
      with fd [of ?b2] nok show ?thesis by (simp add: s fallback_names)
    next
      case False
      with fo [of ?b2] nok m_b2 te show ?thesis by (simp add: s fallback_names)
    qed
  next
    case ex
    then have s: "s = init_failed ?b2" unfolding s_def by (simp add: init_listeners_test [OF g])
    have nok: "\<not> ok" using ex by (simp add: ok_def)
    show ?thesis
    proof (cases d)
      case True
      with fd [of ?b2] nok show ?thesis by (simp add: s fallback_names)
    next
      case False
      with fo [of ?b2] nok m_b2 ex show ?thesis by (simp add: s fallback_names)
    qed
  qed
  from all show "ok \<Longrightarrow> capture_method s = ''pynput_listeners''"
    and "d \<Longrightarrow> \<not> ok \<Longrightarrow> prefix ''macOS_fallback'' (capture_method s) \<and> macos_monitor s \<noteq> None"
    and "\<not> d \<Longrightarrow> mouse_ctor_raises env \<or> keyboard_ctor_raises env \<or> listener_test env = ProbeThreadHandle
           \<Longrightarrow> capture_method s = ''none''"
    and "\<not> d \<Longrightarrow> \<not> prefix ''macOS_fallback'' (capture_method s)"
    by blast+
qed

text \<open>
  C7, as stated, fails. On macOS, with the pynput test and the permission check passed, a
  listener test that raises something other than the capability error is a construction
  failure "for any other reason": the constructor switches to the fallback monitor and
  the method recorded is a fallback variant, not \<open>none\<close>. On another platform, a listener test
  that raises the capability error gives the method \<open>none\<close>, not a fallback variant.
\<close>

theorem backend_selection_counterexample:
  "Recorder_init broken_listener_env =
     Inr (init_listeners broken_listener_env (init_fields broken_listener_env)) \<and>
   capture_method (init_listeners broken_listener_env (init_fields broken_listener_env)) =
     ''macOS_fallback_due_to_permissions'' \<and>
   capture_method (init_listeners capability_env (init_fields capability_env)) = ''none''"
  by (simp add: Recorder_init_def broken_listener_env_def capability_env_def darwin_env_def
      plain_env_def init_fields_def initial_flags_def check_macos_permissions_def
      init_listeners_def init_failed_def switch_to_fallback_def capture_method_def)

text \<open>
  C7, amended. The method is a function of what the constructor meets, and no failure of a
  listener aborts the construction. On macOS: the capability error in the first pynput
  test gives the fallback variant named after the pynput error; otherwise a failed
  permission check gives the fallback variant named after permissions; the native listeners
  are recorded exactly when the first pynput test does not raise the capability error (any
  other exception of that test is logged and leads to the permission check only), the
  permission check passes, and both listeners are created and pass their test; in every
  other case, including a failure of the creation or of the test of the listeners for any
  reason, a fallback variant is recorded and the fallback monitor exists. On other
  platforms no fallback variant is ever recorded: the method is \<open>none\<close> when a listener
  cannot be created or the listener test raises the capability error, and native when both
  listeners are created and pass their test.
\<close>

theorem backend_selection:
  assumes "\<not> obs_connect_fails env"
  shows "\<exists>s. Recorder_init env = Inr s \<and>
     (sys_darwin env \<longrightarrow>
        (smoke_test env = ProbeThreadHandle \<longrightarrow>
           capture_method s = ''macOS_fallback_due_to_pynput_error'') \<and>
        (smoke_test env \<noteq> ProbeThreadHandle \<and> \<not> check_macos_permissions env \<longrightarrow>
           capture_method s = ''macOS_fallback_due_to_permissions'') \<and>
        (capture_method s = ''pynput_listeners'') = native_ok env \<and>
        (\<not> native_ok env \<longrightarrow>
           prefix ''macOS_fallback'' (capture_method s) \<and> macos_monitor s \<noteq> None)) \<and>
     (\<not> sys_darwin env \<longrightarrow>
        \<not> prefix ''macOS_fallback'' (capture_method s) \<and>
        (mouse_ctor_raises env \<or> keyboard_ctor_raises env \<or> listener_test env = ProbeThreadHandle
           \<longrightarrow> capture_method s = ''none'') \<and>
        (\<not> mouse_ctor_raises env \<and> \<not> keyboard_ctor_raises env \<and> listener_test env = ProbeOk
           \<longrightarrow> capture_method s = ''pynput_listeners''))"
proof -
  let ?s = "init_listeners env (init_fields env)"
  let ?ok = "\<not> mouse_ctor_raises env \<and> \<not> keyboard_ctor_raises env \<and> listener_test env = ProbeOk"
  have r: "Recorder_init env = Inr ?s" using assms by (simp add: Recorder_init_def)
  have dar: "(smoke_test env = ProbeThreadHandle \<longrightarrow>
           capture_method ?s = ''macOS_fallback_due_to_pynput_error'') \<and>
        (smoke_test env \<noteq> ProbeThreadHandle \<and> \<not> check_macos_permissions env \<longrightarrow>
           capture_method ?s = ''macOS_fallback_due_to_permissions'') \<and>
        (capture_method ?s = ''pynput_listeners'') = native_ok env \<and>
        (\<not> native_ok env \<longrightarrow>
           prefix ''macOS_fallback'' (capture_method ?s) \<and> macos_monitor ?s \<noteq> None)"
    if d: "sys_darwin env"
  proof (cases "smoke_test env = ProbeThreadHandle")
    case True
    with d have "init_fields env = base_recorder True True True"
      by (simp add: init_fields_base flags_thread_handle)
    with True show ?thesis
      by (simp add: method_fallback_flags native_ok_def fallback_names)
  next
    case False
    show ?thesis
    proof (cases "check_macos_permissions env")
      case denied: False
      with d False have "init_fields env = base_recorder True True False"
        by (simp add: init_fields_base flags_darwin)
      with False denied show ?thesis
        by (simp add: method_fallback_flags native_ok_def fallback_names)
    next
      case granted: True
      with d False have f: "init_fields env = base_recorder True False False"
        by (simp add: init_fields_base flags_darwin)
      have a: "?ok \<Longrightarrow> capture_method ?s = ''pynput_listeners''"
        unfolding f by (rule selection_after_grant(1))
      have b: "\<not> ?ok \<Longrightarrow> prefix ''macOS_fallback'' (capture_method ?s) \<and> macos_monitor ?s \<noteq> None"
        unfolding f by (rule selection_after_grant(2)) simp_all
      have b': "\<not> ?ok \<Longrightarrow> capture_method ?s \<noteq> ''pynput_listeners''"
        using b fallback_names(3) by auto
      have n: "native_ok env = ?ok" using False granted by (simp add: native_ok_def)
      from a b b' False granted show ?thesis unfolding n by blast
    qed
  qed
  have oth: "\<not> prefix ''macOS_fallback'' (capture_method ?s) \<and>
        (mouse_ctor_raises env \<or> keyboard_ctor_raises env \<or> listener_test env = ProbeThreadHandle
           \<longrightarrow> capture_method ?s = ''none'') \<and>
        (?ok \<longrightarrow> capture_method ?s = ''pynput_listeners'')"
    if d: "\<not> sys_darwin env"
  proof -
    from d have f: "init_fields env = base_recorder False False False"
      by (simp add: init_fields_base flags_other)
    have a: "?ok \<Longrightarrow> capture_method ?s = ''pynput_listeners''"
      unfolding f by (rule selection_after_grant(1))
    have b: "mouse_ctor_raises env \<or> keyboard_ctor_raises env \<or> listener_test env = ProbeThreadHandle
           \<Longrightarrow> capture_method ?s = ''none''"
      unfolding f by (rule selection_after_grant(3)) simp_all
    have c: "\<not> prefix ''macOS_fallback'' (capture_method ?s)"
      unfolding f by (rule selection_after_grant(4)) simp
    from a b c show ?thesis by blast
  qed
  from r dar oth show ?thesis by blast
qed

theorem backend_selection_witness:
  "sys_darwin thread_handle_env \<and> smoke_test thread_handle_env = ProbeThreadHandle \<and>
   map_sum id capture_method (Recorder_init thread_handle_env) =
     Inr ''macOS_fallback_due_to_pynput_error'' \<and>
   sys_darwin denied_env \<and> \<not> check_macos_permissions denied_env \<and> \<not> native_ok denied_env \<and>
   map_sum id capture_method (Recorder_init denied_env) =
     Inr ''macOS_fallback_due_to_permissions'' \<and>
   native_ok darwin_env \<and>
   map_sum id capture_method (Recorder_init darwin_env) = Inr ''pynput_listeners'' \<and>
   \<not> sys_darwin no_listener_env \<and> mouse_ctor_raises no_listener_env \<and>
   map_sum id capture_method (Recorder_init no_listener_env) = Inr ''none'' \<and>
   map_sum id capture_method (Recorder_init plain_env) = Inr ''pynput_listeners'' \<and>
   sys_darwin smoke_exception_env \<and> smoke_test smoke_exception_env = ProbeException \<and>
   native_ok smoke_exception_env \<and>
   map_sum id capture_method (Recorder_init smoke_exception_env) = Inr ''pynput_listeners''"
proof -
  have c: "\<not> obs_connect_fails thread_handle_env" "\<not> obs_connect_fails denied_env"
      "\<not> obs_connect_fails darwin_env" "\<not> obs_connect_fails no_listener_env"
      "\<not> obs_connect_fails plain_env"
    by (simp_all add: thread_handle_env_def denied_env_def darwin_env_def no_listener_env_def
        plain_env_def)
  have h: "sys_darwin thread_handle_env" "smoke_test thread_handle_env = ProbeThreadHandle"
      "sys_darwin denied_env" "\<not> check_macos_permissions denied_env" "\<not> native_ok denied_env"
      "smoke_test denied_env \<noteq> ProbeThreadHandle"
      "sys_darwin darwin_env" "native_ok darwin_env"
      "\<not> sys_darwin no_listener_env" "mouse_ctor_raises no_listener_env"
      "\<not> sys_darwin plain_env" "\<not> mouse_ctor_raises plain_env"
      "\<not> keyboard_ctor_raises plain_env" "listener_test plain_env = ProbeOk"
    by (simp_all add: thread_handle_env_def denied_env_def darwin_env_def no_listener_env_def
        plain_env_def native_ok_def check_macos_permissions_def)
  from backend_selection [OF c(1)] h(1,2)
  have 1: "map_sum id capture_method (Recorder_init thread_handle_env) =
     Inr ''macOS_fallback_due_to_pynput_error''" by auto
  from backend_selection [OF c(2)] h(3,4,6)
  have 2: "map_sum id capture_method (Recorder_init denied_env) =
     Inr ''macOS_fallback_due_to_permissions''" by auto
  from backend_selection [OF c(3)] h(7,8)
  have 3: "map_sum id capture_method (Recorder_init darwin_env) = Inr ''pynput_listeners''"
    by auto
  from backend_selection [OF c(4)] h(9,10)
  have 4: "map_sum id capture_method (Recorder_init no_listener_env) = Inr ''none''" by auto
  from backend_selection [OF c(5)] h(11-14)
  have 5: "map_sum id capture_method (Recorder_init plain_env) = Inr ''pynput_listeners''"
    by auto
  have c6: "\<not> obs_connect_fails smoke_exception_env"
    and h6: "sys_darwin smoke_exception_env" "smoke_test smoke_exception_env = ProbeException"
      "native_ok smoke_exception_env"
    by (simp_all add: smoke_exception_env_def darwin_env_def plain_env_def native_ok_def
        check_macos_permissions_def)
  from backend_selection [OF c6] h6
  have 6: "map_sum id capture_method (Recorder_init smoke_exception_env) = Inr ''pynput_listeners''"
    by auto
  from 1 2 3 4 5 6 h h6 show ?thesis by simp
qed

section \<open>Stop after a recovered start\<close>

lemma darwin_recorder_simps:
  "darwin_recorder =
     \<lparr>darwin = True, use_fallback = False, thread_handle_error_detected = False,
      is_recording = False, is_paused = False, event_queue = [], events_file = [],
      file_closed = False, mouse_listener = Listener False, keyboard_listener = Listener False,
      macos_monitor = None, calls = []\<rparr>"
  by (simp add: darwin_recorder_def darwin_env_def plain_env_def init_fields_def
      initial_flags_def check_macos_permissions_def init_listeners_def)

lemma run_recovery: "run recovery_env darwin_recorder = Some (Returned recovered_recorder)"
  by (simp add: run_def recovery_env_def demo_run_env_def recovery_ticks_def
      recovered_recorder_def darwin_recorder_simps do_call_def Let_def write_line_def
      capture_method_def try_block_def start_listeners_def start_pynput_def
      handle_start_error_def monitor_start_def new_monitor_def write_or_raise_def
      final_event_def loop_body_def check_direct_def process_queue_def macos_on_input_def
      put_def stop_flip_def)

text \<open>
  C8 at the failing input: a session on macOS that chose the native listeners, in which
  \<^verbatim>\<open>mouse_listener.start()\<close> raises the capability error and \<open>run\<close> recovers by creating
  and starting the fallback monitor, leaving \<open>use_fallback\<close> unset. Stop clears the flag,
  \<open>run\<close> returns, and the teardown runs with no step raising. Its step for the capture
  backend tests \<open>use_fallback\<close>, finds no listener running, and stops nothing: no stop of
  the monitor is among the calls, and the monitor is still running after the teardown.
\<close>

theorem stop_skips_recovered_monitor:
  "run recovery_env darwin_recorder = Some (Returned recovered_recorder) \<and>
   calls (stop_teardown quiet_stop_env recovered_recorder) =
     [Collect, ObsStart, MouseStart, MonitorStart,
      Sleep, EndCollect, ObsStop, AddTimings, FileFlush, FileClose, SaveMetadata, EmitStopped] \<and>
   map_option mon_running (macos_monitor (stop_teardown quiet_stop_env recovered_recorder)) =
     Some True"
proof -
  have "calls (stop_teardown quiet_stop_env recovered_recorder) =
     [Collect, ObsStart, MouseStart, MonitorStart,
      Sleep, EndCollect, ObsStop, AddTimings, FileFlush, FileClose, SaveMetadata, EmitStopped]"
    by (simp add: recovered_recorder_def darwin_recorder_simps stop_teardown_def
        stop_listeners_def stop_keyboard_def finalize_metadata_def stop_obs_def
        close_events_file_def save_metadata_def do_call_def quiet_stop_env_def Let_def)
  moreover have "map_option mon_running
      (macos_monitor (stop_teardown quiet_stop_env recovered_recorder)) = Some True"
    by (simp add: recovered_recorder_def darwin_recorder_simps stop_teardown_def
        stop_listeners_def stop_keyboard_def finalize_metadata_def stop_obs_def
        close_events_file_def save_metadata_def do_call_def quiet_stop_env_def Let_def
        new_monitor_def)
  ultimately show ?thesis using run_recovery by simp
qed

text \<open>
  C9 at the failing input: the start of the native backend fails in \<open>run\<close> as above, and
  Stop is requested during the first iteration of the loop. Stop returns and closes the log,
  but the fallback monitor that the partly failed start had started is not released: it
  was started, and it is still running after the teardown.
\<close>

theorem stop_leaves_monitor_running:
  "map_option (file_closed \<circ> stop_teardown quiet_stop_env \<circ> state_of)
     (run short_recovery_env darwin_recorder) = Some True \<and>
   map_option (map_option mon_started \<circ> macos_monitor \<circ> stop_teardown quiet_stop_env \<circ> state_of)
     (run short_recovery_env darwin_recorder) = Some (Some True) \<and>
   map_option (map_option mon_running \<circ> macos_monitor \<circ> stop_teardown quiet_stop_env \<circ> state_of)
     (run short_recovery_env darwin_recorder) = Some (Some True)"
  by (simp add: run_def short_recovery_env_def recovery_env_def demo_run_env_def
      darwin_recorder_simps do_call_def Let_def write_line_def
      capture_method_def try_block_def start_listeners_def start_pynput_def
      handle_start_error_def monitor_start_def new_monitor_def write_or_raise_def
      final_event_def loop_body_def check_direct_def process_queue_def
      stop_flip_def stop_teardown_def stop_listeners_def stop_keyboard_def
      finalize_metadata_def stop_obs_def close_events_file_def save_metadata_def
      quiet_stop_env_def)

end
